theory Spec2Isabelle
  imports Complex_Main "HOL-Library.Char_ord"
begin

text \<open>
  A shallow embedding of the decision-and-reconciliation engine of the DocumentDB
  autoscaler: the capacity calculator, the topology resolver, the ownership tagger, the
  instance provisioner, the two reconcilers and the retrying executor.

  Modelling decisions.
  \<^item> Go strings are byte sequences: \<open>string\<close> is a list of 8-bit characters, \<open>len\<close> is
    \<open>length\<close>, a slice \<open>s[:63]\<close> is \<open>take 63\<close>. A \<open>range\<close> loop over a string decodes
    UTF-8 runes; \<open>runeWidth\<close> gives the number of bytes one iteration consumes.
  \<^item> Go's \<open>int\<close> is modelled as an unbounded \<open>int\<close> (replica counts are far from
    \<open>2^63\<close>); \<open>time.Duration\<close> is a number of nanoseconds, and the doubling of the backoff
    wraps at 64 bits (\<open>int64\<close>).
  \<^item> \<open>float64\<close> is idealised as \<open>real\<close>: rounding error, infinities and NaN are outside
    the model.
  \<^item> Pointers to strings are strings, \<open>nil\<close> being the empty string, as \<open>aws.ToString\<close>
    reads them.
  \<^item> The directory, the metric source, the notifier, the clock and the sleeps are one
    \<open>world\<close>, passed explicitly. Every external call is recorded in the \<open>trace\<close> with its
    outcome; the call at trace position \<open>n\<close> fails when \<open>faults w n\<close> holds, so any pattern
    of failures can be written down.
  \<^item> An error return is \<open>Err\<close>, a run-time panic (a slice or an index out of range) is
    \<open>Panic\<close>. Logging is left out, except for the dry-run records.
\<close>

section \<open>Strings and formatting\<close>

text \<open>\<open>fmt.Sprintf("%d", n)\<close>: decimal digits, with a sign for negative numbers.\<close>

definition digitChar :: "int \<Rightarrow> char" where
  "digitChar n = ''0123456789'' ! nat n"

function showDigits :: "int \<Rightarrow> string" where
  "showDigits n = (if n < 10 then [digitChar n] else showDigits (n div 10) @ [digitChar (n mod 10)])"
  by pat_completeness auto
termination
  by (relation "measure nat") auto

declare showDigits.simps [simp del]

definition showInt :: "int \<Rightarrow> string" where
  "showInt i = (if i < 0 then CHR ''-'' # showDigits (- i) else showDigits i)"

text \<open>
  \<open>strings.TrimRight(s, "-")\<close> and \<open>strings.Trim(s, "-")\<close> with a one-character cutset, and
  \<open>strings.ReplaceAll(s, "--", "-")\<close>: one pass from the left over non-overlapping matches.
\<close>

definition TrimRight :: "string \<Rightarrow> char \<Rightarrow> string" where
  "TrimRight s c = rev (dropWhile (\<lambda>x. x = c) (rev s))"

definition Trim :: "string \<Rightarrow> char \<Rightarrow> string" where
  "Trim s c = TrimRight (dropWhile (\<lambda>x. x = c) s) c"

fun ReplaceAllHyphenPairs :: "string \<Rightarrow> string" where
  "ReplaceAllHyphenPairs (a # b # cs) =
     (if a = CHR ''-'' \<and> b = CHR ''-'' then CHR ''-'' # ReplaceAllHyphenPairs cs
      else a # ReplaceAllHyphenPairs (b # cs))"
| "ReplaceAllHyphenPairs cs = cs"

definition isLetter :: "char \<Rightarrow> bool" where
  "isLetter ch = ((CHR ''A'' \<le> ch \<and> ch \<le> CHR ''Z'') \<or> (CHR ''a'' \<le> ch \<and> ch \<le> CHR ''z''))"

definition isValidDBInstanceIdentifierChar :: "char \<Rightarrow> bool" where
  "isValidDBInstanceIdentifierChar ch =
     ((CHR ''A'' \<le> ch \<and> ch \<le> CHR ''Z'') \<or>
      (CHR ''a'' \<le> ch \<and> ch \<le> CHR ''z'') \<or>
      (CHR ''0'' \<le> ch \<and> ch \<le> CHR ''9'') \<or>
      ch = CHR ''-'')"

text \<open>
  The number of bytes the rune at the head of a string takes, as Go's UTF-8 decoder
  decides it: an ASCII byte is one rune, a well-formed multi-byte sequence is one rune, and
  any other byte is an invalid rune of width one.
\<close>

definition inRange :: "nat \<Rightarrow> nat \<Rightarrow> char \<Rightarrow> bool" where
  "inRange lo hi c = (lo \<le> of_char c \<and> (of_char c :: nat) \<le> hi)"

fun runeWidth :: "string \<Rightarrow> nat" where
  "runeWidth [] = 0"
| "runeWidth (c # cs) =
     (let b = (of_char c :: nat) in
      if b < 0x80 then 1
      else if 0xC2 \<le> b \<and> b \<le> 0xDF then
        (case cs of c1 # _ \<Rightarrow> if inRange 0x80 0xBF c1 then 2 else 1 | _ \<Rightarrow> 1)
      else if 0xE0 \<le> b \<and> b \<le> 0xEF then
        (case cs of
           c1 # c2 # _ \<Rightarrow>
             if inRange (if b = 0xE0 then 0xA0 else 0x80) (if b = 0xED then 0x9F else 0xBF) c1
                \<and> inRange 0x80 0xBF c2
             then 3 else 1
         | _ \<Rightarrow> 1)
      else if 0xF0 \<le> b \<and> b \<le> 0xF4 then
        (case cs of
           c1 # c2 # c3 # _ \<Rightarrow>
             if inRange (if b = 0xF0 then 0x90 else 0x80) (if b = 0xF4 then 0x8F else 0xBF) c1
                \<and> inRange 0x80 0xBF c2 \<and> inRange 0x80 0xBF c3
             then 4 else 1
         | _ \<Rightarrow> 1)
      else 1)"

text \<open>
  The loop \<open>for _, ch := range identifier\<close> of \<open>sanitizeDBInstanceIdentifier\<close>: the first
  argument counts the continuation bytes of the current rune that remain to be skipped. A
  rune outside ASCII is never a valid identifier character.
\<close>

fun replaceInvalid :: "nat \<Rightarrow> string \<Rightarrow> string" where
  "replaceInvalid k [] = []"
| "replaceInvalid (Suc k) (c # cs) = replaceInvalid k cs"
| "replaceInvalid 0 (c # cs) =
     (if (of_char c :: nat) < 0x80 \<and> isValidDBInstanceIdentifierChar c then c else CHR ''-'')
       # replaceInvalid (runeWidth (c # cs) - 1) cs"

definition sanitizeDBInstanceIdentifier :: "string \<Rightarrow> string option" where
  "sanitizeDBInstanceIdentifier identifier =
     (case identifier of
        [] \<Rightarrow> None
      | c0 # _ \<Rightarrow>
          (let identifier1 = (if \<not> isLetter c0 then CHR ''a'' # identifier else identifier);
               validIdentifier = replaceInvalid 0 identifier1;
               validIdentifier2 = ReplaceAllHyphenPairs validIdentifier;
               validIdentifier3 = Trim validIdentifier2 (CHR ''-'')
           in Some validIdentifier3))"

text \<open>
  \<open>timestamp[len(timestamp)-9:]\<close> panics when the timestamp has fewer than nine characters;
  \<open>identifier[0]\<close> panics on the empty string. Both are \<open>None\<close> here. The loop bodies of
  \<open>AddReplicas\<close> and \<open>AddScheduledReplicas\<close> build the identifier in the same way, with
  the suffix \<open>reader\<close> or \<open>scheduler\<close>.
\<close>

definition uniqueIDOf :: "int \<Rightarrow> string option" where
  "uniqueIDOf t =
     (let timestamp = showInt t
      in if length timestamp < 9 then None
         else Some (drop (length timestamp - 9) timestamp))"

definition newIdentifier :: "string \<Rightarrow> string \<Rightarrow> string \<Rightarrow> string option" where
  "newIdentifier clusterID suffix uniqueID =
     (let baseIdentifier = clusterID @ ''-'' @ suffix @ ''-'' @ uniqueID;
          baseIdentifier1 = (if length baseIdentifier > 63
                             then TrimRight (take 63 baseIdentifier) (CHR ''-'')
                             else baseIdentifier)
      in sanitizeDBInstanceIdentifier baseIdentifier1)"

section \<open>Capacity calculator\<close>

record DocumentDB =
  ClusterID :: string
  MinCapacity :: int
  MaxCapacity :: int
  MetricName :: string
  TargetValue :: real
  ScaleInCooldown :: int
  ScaleOutCooldown :: int
  InstanceType :: string
  DryRun :: bool
  ScheduledScaling :: bool
  ScheduleNumberReplicas :: int

definition truncateToInt :: "real \<Rightarrow> int" where
  "truncateToInt x = (if x < 0 then \<lceil>x\<rceil> else \<lfloor>x\<rfloor>)"

definition CalculateDesiredCapacity :: "DocumentDB \<Rightarrow> real \<Rightarrow> int \<Rightarrow> int" where
  "CalculateDesiredCapacity d currentMetricValue currentCapacity =
     (let proportionalCapacity = (currentMetricValue / TargetValue d) * real_of_int currentCapacity;
          desiredCapacity = (if proportionalCapacity > real_of_int currentCapacity
                             then real_of_int \<lceil>proportionalCapacity\<rceil>
                             else real_of_int \<lfloor>proportionalCapacity\<rfloor>);
          desiredCapacity1 = (if desiredCapacity < real_of_int (MinCapacity d)
                              then real_of_int (MinCapacity d)
                              else if desiredCapacity > real_of_int (MaxCapacity d)
                              then real_of_int (MaxCapacity d)
                              else desiredCapacity)
      in truncateToInt desiredCapacity1)"

text \<open>The capacity calculator as the specification words it.\<close>

definition clamp :: "int \<Rightarrow> int \<Rightarrow> int \<Rightarrow> int" where
  "clamp x lo hi = max lo (min hi x)"

definition roundDirected :: "real \<Rightarrow> int \<Rightarrow> int" where
  "roundDirected p current = (if p > real_of_int current then \<lceil>p\<rceil> else \<lfloor>p\<rfloor>)"

definition desiredBySpec :: "real \<Rightarrow> real \<Rightarrow> int \<Rightarrow> int \<Rightarrow> int \<Rightarrow> int" where
  "desiredBySpec metric target current lo hi =
     clamp (roundDirected (metric / target * real_of_int current) current) lo hi"

section \<open>The directory, the metric source, the notifier and the clock\<close>

record DBInstance =
  DBInstanceIdentifier :: string
  DBInstanceArn :: string
  DBInstanceStatus :: string
  DBInstanceClass :: string

record DBClusterMember =
  MemberInstanceIdentifier :: string
  IsClusterWriter :: bool

record Tag =
  TagKey :: string
  TagValue :: string

record Datapoint =
  Timestamp :: int
  Average :: real

datatype call =
    DescribeDBInstancesCall
  | DescribeDBClustersCall
  | ListTagsForResourceCall string
  | GetMetricStatisticsCall string
  | CreateDBInstanceCall string string
  | AddTagsToResourceCall string string string
  | DeleteDBInstanceCall string
  | ScaleOutNotificationCall string int
  | ScaleInNotificationCall string int
  | FailureNotificationCall string string string
  | SleepCall int
  | DryRunRecord string

record world =
  dbInstances :: "DBInstance list"
  dbClusters :: "DBClusterMember list list"
  tagLists :: "string \<Rightarrow> Tag list"
  datapoints :: "string \<Rightarrow> Datapoint list"
  arnFor :: "string \<Rightarrow> string option"
  faults :: "nat \<Rightarrow> bool"
  clock :: "nat \<Rightarrow> int"
  ticks :: nat
  trace :: "(call \<times> bool) list"

datatype err = Fault nat | Msg string | UnmarshalError

datatype 'a res = Ok 'a | Err err | Panic

type_synonym 'a prog = "world \<Rightarrow> 'a res \<times> world"

definition ret :: "'a \<Rightarrow> 'a prog" where
  "ret x w = (Ok x, w)"

definition failWith :: "err \<Rightarrow> 'a prog" where
  "failWith e w = (Err e, w)"

definition andThen :: "'a prog \<Rightarrow> ('a \<Rightarrow> 'b prog) \<Rightarrow> 'b prog" where
  "andThen m f w =
     (case m w of
        (Ok x, w1) \<Rightarrow> f x w1
      | (Err e, w1) \<Rightarrow> (Err e, w1)
      | (Panic, w1) \<Rightarrow> (Panic, w1))"

text \<open>
  One external call: it is recorded with its outcome, and on success it answers from the
  world and applies its effect.
\<close>

definition request :: "call \<Rightarrow> (world \<Rightarrow> 'a) \<Rightarrow> (world \<Rightarrow> world) \<Rightarrow> 'a prog" where
  "request c answer effect w =
     (let ok = \<not> faults w (length (trace w));
          w1 = w\<lparr>trace := trace w @ [(c, ok)]\<rparr>
      in if ok then (Ok (answer w1), effect w1)
         else (Err (Fault (length (trace w))), w1))"

definition DescribeDBInstances :: "DBInstance list prog" where
  "DescribeDBInstances = request DescribeDBInstancesCall dbInstances (\<lambda>w. w)"

definition DescribeDBClusters :: "DBClusterMember list list prog" where
  "DescribeDBClusters = request DescribeDBClustersCall dbClusters (\<lambda>w. w)"

definition ListTagsForResource :: "string \<Rightarrow> Tag list prog" where
  "ListTagsForResource arn = request (ListTagsForResourceCall arn) (\<lambda>w. tagLists w arn) (\<lambda>w. w)"

definition GetMetricStatistics :: "string \<Rightarrow> Datapoint list prog" where
  "GetMetricStatistics instanceID =
     request (GetMetricStatisticsCall instanceID) (\<lambda>w. datapoints w instanceID) (\<lambda>w. w)"

definition CreateDBInstance :: "string \<Rightarrow> string \<Rightarrow> string option prog" where
  "CreateDBInstance identifier instanceClass =
     request (CreateDBInstanceCall identifier instanceClass) (\<lambda>w. arnFor w identifier)
       (\<lambda>w. w\<lparr>dbInstances := dbInstances w @
                 [\<lparr>DBInstanceIdentifier = identifier,
                   DBInstanceArn = (case arnFor w identifier of Some a \<Rightarrow> a | None \<Rightarrow> []),
                   DBInstanceStatus = ''creating'',
                   DBInstanceClass = instanceClass\<rparr>]\<rparr>)"

definition AddTagsToResource :: "string \<Rightarrow> string \<Rightarrow> string \<Rightarrow> unit prog" where
  "AddTagsToResource arn k v =
     request (AddTagsToResourceCall arn k v) (\<lambda>w. ())
       (\<lambda>w. w\<lparr>tagLists := (tagLists w)(arn := tagLists w arn @ [\<lparr>TagKey = k, TagValue = v\<rparr>])\<rparr>)"

fun removeInstance :: "string \<Rightarrow> DBInstance list \<Rightarrow> DBInstance list" where
  "removeInstance identifier [] = []"
| "removeInstance identifier (i # rest) =
     (if DBInstanceIdentifier i = identifier then rest else i # removeInstance identifier rest)"

definition DeleteDBInstance :: "string \<Rightarrow> unit prog" where
  "DeleteDBInstance identifier =
     request (DeleteDBInstanceCall identifier) (\<lambda>w. ())
       (\<lambda>w. w\<lparr>dbInstances := removeInstance identifier (dbInstances w)\<rparr>)"

definition SendScaleOutNotification :: "string \<Rightarrow> int \<Rightarrow> unit prog" where
  "SendScaleOutNotification clusterID replicasAdded =
     request (ScaleOutNotificationCall clusterID replicasAdded) (\<lambda>w. ()) (\<lambda>w. w)"

definition SendScaleInNotification :: "string \<Rightarrow> int \<Rightarrow> unit prog" where
  "SendScaleInNotification clusterID replicasRemoved =
     request (ScaleInNotificationCall clusterID replicasRemoved) (\<lambda>w. ()) (\<lambda>w. w)"

definition SendFailureNotification :: "string \<Rightarrow> string \<Rightarrow> string \<Rightarrow> unit prog" where
  "SendFailureNotification clusterID errorMessage action =
     request (FailureNotificationCall clusterID errorMessage action) (\<lambda>w. ()) (\<lambda>w. w)"

text \<open>The messages the SNS notifier publishes.\<close>

definition scaleOutMessage :: "string \<Rightarrow> int \<Rightarrow> string" where
  "scaleOutMessage clusterID replicasAdded =
     ''Scaled out cluster '' @ clusterID @ '' by adding '' @ showInt replicasAdded @ '' replicas.''"

definition scaleInMessage :: "string \<Rightarrow> int \<Rightarrow> string" where
  "scaleInMessage clusterID replicasRemoved =
     ''Scaled in cluster '' @ clusterID @ '' by removing '' @ showInt replicasRemoved @ '' replicas.''"

definition failureMessage :: "string \<Rightarrow> string \<Rightarrow> string \<Rightarrow> string" where
  "failureMessage clusterID errorMessage action =
     ''Failed to '' @ action @ '' on cluster '' @ clusterID @ '': '' @ errorMessage"

text \<open>An error that is logged and not returned.\<close>

definition ignoreError :: "unit prog \<Rightarrow> unit prog" where
  "ignoreError m w =
     (case m w of
        (Panic, w1) \<Rightarrow> (Panic, w1)
      | (_, w1) \<Rightarrow> (Ok (), w1))"

definition Sleep :: "int \<Rightarrow> world \<Rightarrow> world" where
  "Sleep duration w = w\<lparr>trace := trace w @ [(SleepCall duration, True)]\<rparr>"

definition logDryRun :: "string \<Rightarrow> unit prog" where
  "logDryRun identifier w = (Ok (), w\<lparr>trace := trace w @ [(DryRunRecord identifier, True)]\<rparr>)"

definition UnixNano :: "world \<Rightarrow> int \<times> world" where
  "UnixNano w = (clock w (ticks w), w\<lparr>ticks := Suc (ticks w)\<rparr>)"

section \<open>Topology resolver and ownership tagger\<close>

definition GetWriterInstanceIdentifier :: "DocumentDB \<Rightarrow> string prog" where
  "GetWriterInstanceIdentifier d =
     andThen DescribeDBClusters (\<lambda>clusters.
       case clusters of
         [] \<Rightarrow> failWith (Msg (''no clusters found with identifier '' @ ClusterID d))
       | dbCluster # _ \<Rightarrow>
           (case find IsClusterWriter dbCluster of
              Some member \<Rightarrow> ret (MemberInstanceIdentifier member)
            | None \<Rightarrow> failWith (Msg (''writer instance not found in cluster '' @ ClusterID d))))"

definition GetReaderInstances :: "DocumentDB \<Rightarrow> DBInstance list prog" where
  "GetReaderInstances d =
     andThen DescribeDBInstances (\<lambda>instances.
     andThen (GetWriterInstanceIdentifier d) (\<lambda>writerInstanceIdentifier.
       ret (filter (\<lambda>instance. DBInstanceIdentifier instance \<noteq> writerInstanceIdentifier)
              instances)))"

definition GetCurrentCapacity :: "DocumentDB \<Rightarrow> int prog" where
  "GetCurrentCapacity d =
     andThen (GetReaderInstances d) (\<lambda>readerInstances. ret (int (length readerInstances)))"

definition GetWriterInstance :: "DocumentDB \<Rightarrow> DBInstance prog" where
  "GetWriterInstance d =
     andThen DescribeDBInstances (\<lambda>instances.
     andThen (GetWriterInstanceIdentifier d) (\<lambda>writerInstanceIdentifier.
       case find (\<lambda>instance. DBInstanceIdentifier instance = writerInstanceIdentifier) instances of
         Some instance \<Rightarrow> ret instance
       | None \<Rightarrow> failWith (Msg ''writer instance not found'')))"

definition hasTag :: "string \<Rightarrow> Tag list \<Rightarrow> bool" where
  "hasTag k tags = list_ex (\<lambda>tag. TagKey tag = k \<and> TagValue tag = ''true'') tags"

definition HasAutoscalerTag :: "DBInstance \<Rightarrow> bool prog" where
  "HasAutoscalerTag instance =
     andThen (ListTagsForResource (DBInstanceArn instance)) (\<lambda>tagList.
       ret (hasTag ''docdb-autoscaler-created'' tagList))"

definition HasSchedulerTag :: "DBInstance \<Rightarrow> bool prog" where
  "HasSchedulerTag instance =
     andThen (ListTagsForResource (DBInstanceArn instance)) (\<lambda>tagList.
       ret (hasTag ''docdb-autoscaler-scheduler'' tagList))"

section \<open>Metric sampler\<close>

fun sumLatestDatapoints :: "DBInstance list \<Rightarrow> real \<Rightarrow> real prog" where
  "sumLatestDatapoints [] totalMetric w = (Ok totalMetric, w)"
| "sumLatestDatapoints (instance # rest) totalMetric w =
     (case GetMetricStatistics (DBInstanceIdentifier instance) w of
        (Ok dps, w1) \<Rightarrow>
          (if dps = []
           then (Err (Msg (''no datapoints found for instance '' @ DBInstanceIdentifier instance)), w1)
           else sumLatestDatapoints rest
                  (totalMetric + Average (last (sort_key Timestamp dps))) w1)
      | (Err e, w1) \<Rightarrow> (Err e, w1)
      | (Panic, w1) \<Rightarrow> (Panic, w1))"

definition GetCurrentMetricValue :: "DocumentDB \<Rightarrow> real prog" where
  "GetCurrentMetricValue d =
     andThen (GetReaderInstances d) (\<lambda>readerInstances.
       if length readerInstances = 0 then failWith (Msg ''no reader instances found'')
       else andThen (sumLatestDatapoints readerInstances 0) (\<lambda>totalMetric.
              ret (totalMetric / real (length readerInstances))))"

section \<open>Instance provisioner\<close>

text \<open>
  One iteration of the creation loop. The loops of \<open>AddReplicas\<close> and
  \<open>AddScheduledReplicas\<close> have the same body up to the identifier suffix, the tag key and
  the place where the instance class is chosen.
\<close>

definition createReplica :: "DocumentDB \<Rightarrow> string \<Rightarrow> string \<Rightarrow> string \<Rightarrow> unit prog" where
  "createReplica d suffix tagKey instanceClass w =
     (case UnixNano w of (t, w1) \<Rightarrow>
        (case uniqueIDOf t of
           None \<Rightarrow> (Panic, w1)
         | Some uniqueID \<Rightarrow>
             (case newIdentifier (ClusterID d) suffix uniqueID of
                None \<Rightarrow> (Panic, w1)
              | Some baseIdentifier \<Rightarrow>
                  (if \<not> DryRun d then
                     andThen (CreateDBInstance baseIdentifier instanceClass) (\<lambda>arn.
                       case arn of
                         None \<Rightarrow> failWith (Msg (''DBInstanceArn is nil for instance '' @ baseIdentifier))
                       | Some instanceArn \<Rightarrow>
                           ignoreError (AddTagsToResource instanceArn tagKey ''true'')) w1
                   else logDryRun baseIdentifier w1))))"

fun AddReplicasLoop :: "DocumentDB \<Rightarrow> DBInstance \<Rightarrow> nat \<Rightarrow> unit prog" where
  "AddReplicasLoop d writerInstance 0 w = (Ok (), w)"
| "AddReplicasLoop d writerInstance (Suc n) w =
     (case createReplica d ''reader'' ''docdb-autoscaler-created''
             (if InstanceType d \<noteq> [] then InstanceType d else DBInstanceClass writerInstance) w of
        (Ok u, w1) \<Rightarrow> AddReplicasLoop d writerInstance n w1
      | (Err e, w1) \<Rightarrow> (Err e, w1)
      | (Panic, w1) \<Rightarrow> (Panic, w1))"

definition AddReplicas :: "DocumentDB \<Rightarrow> int \<Rightarrow> unit prog" where
  "AddReplicas d replicasToAdd =
     andThen (GetWriterInstance d) (\<lambda>writerInstance.
       AddReplicasLoop d writerInstance (nat replicasToAdd))"

fun AddScheduledReplicasLoop :: "DocumentDB \<Rightarrow> string \<Rightarrow> nat \<Rightarrow> unit prog" where
  "AddScheduledReplicasLoop d instanceClass 0 w = (Ok (), w)"
| "AddScheduledReplicasLoop d instanceClass (Suc n) w =
     (case createReplica d ''scheduler'' ''docdb-autoscaler-scheduler'' instanceClass w of
        (Ok u, w1) \<Rightarrow> AddScheduledReplicasLoop d instanceClass n w1
      | (Err e, w1) \<Rightarrow> (Err e, w1)
      | (Panic, w1) \<Rightarrow> (Panic, w1))"

definition AddScheduledReplicas :: "DocumentDB \<Rightarrow> int \<Rightarrow> unit prog" where
  "AddScheduledReplicas d replicasToAdd =
     (if InstanceType d \<noteq> [] then AddScheduledReplicasLoop d (InstanceType d) (nat replicasToAdd)
      else andThen (GetWriterInstance d) (\<lambda>writerInstance.
             AddScheduledReplicasLoop d (DBInstanceClass writerInstance) (nat replicasToAdd)))"

text \<open>
  The scan of \<open>RemoveReplica\<close>: the writer is skipped, a failed tag lookup is logged and
  the scan continues, the status is checked after the tag was read.
\<close>

fun findInstanceToRemove :: "string \<Rightarrow> DBInstance list \<Rightarrow> DBInstance option prog" where
  "findInstanceToRemove writerInstanceIdentifier [] w = (Ok None, w)"
| "findInstanceToRemove writerInstanceIdentifier (instance # rest) w =
     (if DBInstanceIdentifier instance = writerInstanceIdentifier
      then findInstanceToRemove writerInstanceIdentifier rest w
      else
        (case HasAutoscalerTag instance w of
           (Err e, w1) \<Rightarrow> findInstanceToRemove writerInstanceIdentifier rest w1
         | (Panic, w1) \<Rightarrow> (Panic, w1)
         | (Ok tagged, w1) \<Rightarrow>
             (if DBInstanceStatus instance \<noteq> ''available''
              then findInstanceToRemove writerInstanceIdentifier rest w1
              else if tagged then (Ok (Some instance), w1)
              else findInstanceToRemove writerInstanceIdentifier rest w1)))"

definition RemoveReplica :: "DocumentDB \<Rightarrow> unit prog" where
  "RemoveReplica d =
     andThen DescribeDBInstances (\<lambda>instances.
     andThen (GetWriterInstanceIdentifier d) (\<lambda>writerInstanceIdentifier.
     andThen (findInstanceToRemove writerInstanceIdentifier instances) (\<lambda>instanceToRemove.
       case instanceToRemove of
         None \<Rightarrow> ret ()
       | Some instance \<Rightarrow>
           (if \<not> DryRun d then DeleteDBInstance (DBInstanceIdentifier instance)
            else logDryRun (DBInstanceIdentifier instance)))))"

fun RemoveScheduledReplicas :: "DocumentDB \<Rightarrow> DBInstance list \<Rightarrow> unit prog" where
  "RemoveScheduledReplicas d [] w = (Ok (), w)"
| "RemoveScheduledReplicas d (instance # rest) w =
     (if DBInstanceStatus instance \<noteq> ''available'' then RemoveScheduledReplicas d rest w
      else
        (case (if \<not> DryRun d then DeleteDBInstance (DBInstanceIdentifier instance)
               else logDryRun (DBInstanceIdentifier instance)) w of
           (Ok u, w1) \<Rightarrow> RemoveScheduledReplicas d rest w1
         | (Err e, w1) \<Rightarrow> (Err e, w1)
         | (Panic, w1) \<Rightarrow> (Panic, w1)))"

section \<open>Reconciler\<close>

fun collectScheduledInstances :: "DBInstance list \<Rightarrow> DBInstance list \<Rightarrow> DBInstance list prog" where
  "collectScheduledInstances [] scheduledInstances w = (Ok scheduledInstances, w)"
| "collectScheduledInstances (instance # rest) scheduledInstances w =
     (case HasSchedulerTag instance w of
        (Ok tagged, w1) \<Rightarrow>
          collectScheduledInstances rest
            (if tagged then scheduledInstances @ [instance] else scheduledInstances) w1
      | (Err e, w1) \<Rightarrow> (Err e, w1)
      | (Panic, w1) \<Rightarrow> (Panic, w1))"

definition ExecuteScheduledScalingAction :: "DocumentDB \<Rightarrow> unit prog" where
  "ExecuteScheduledScalingAction d =
     andThen (GetReaderInstances d) (\<lambda>readerInstances.
     andThen (collectScheduledInstances readerInstances []) (\<lambda>scheduledInstances.
       let currentScheduledReplicas = int (length scheduledInstances) in
       if currentScheduledReplicas > 0 then
         andThen (RemoveScheduledReplicas d scheduledInstances) (\<lambda>u.
           ignoreError (SendScaleInNotification (ClusterID d) currentScheduledReplicas))
       else
         (let replicasToAdd = ScheduleNumberReplicas d;
              desiredCapacity = int (length readerInstances) + replicasToAdd
          in if desiredCapacity > MaxCapacity d
                \<and> MaxCapacity d - int (length readerInstances) \<le> 0
             then ret ()
             else
               (let replicasToAdd1 = (if desiredCapacity > MaxCapacity d
                                      then MaxCapacity d - int (length readerInstances)
                                      else replicasToAdd);
                    replicasToAdd2 = (if desiredCapacity < MinCapacity d
                                      then MinCapacity d - int (length readerInstances)
                                      else replicasToAdd1)
                in andThen (AddScheduledReplicas d replicasToAdd2) (\<lambda>u.
                     ignoreError (SendScaleOutNotification (ClusterID d) replicasToAdd2))))))"

definition ExecuteMetricBasedScalingAction :: "DocumentDB \<Rightarrow> unit prog" where
  "ExecuteMetricBasedScalingAction d =
     andThen (GetCurrentMetricValue d) (\<lambda>currentMetricValue.
     andThen (GetCurrentCapacity d) (\<lambda>currentCapacity.
       let desiredCapacity = CalculateDesiredCapacity d currentMetricValue currentCapacity in
       if desiredCapacity > currentCapacity then
         (let replicasToAdd = desiredCapacity - currentCapacity
          in andThen (AddReplicas d replicasToAdd) (\<lambda>u.
               ignoreError (SendScaleOutNotification (ClusterID d) replicasToAdd)))
       else if desiredCapacity < currentCapacity then
         andThen (RemoveReplica d) (\<lambda>u.
           ignoreError (SendScaleInNotification (ClusterID d) 1))
       else ret ()))"

definition ExecuteScalingAction :: "DocumentDB \<Rightarrow> unit prog" where
  "ExecuteScalingAction d =
     (if ScheduledScaling d then ExecuteScheduledScalingAction d
      else ExecuteMetricBasedScalingAction d)"

section \<open>Retrying executor\<close>

definition Second :: int where
  "Second = 1000000000"

definition int64 :: "int \<Rightarrow> int" where
  "int64 x = (x + 2 ^ 63) mod 2 ^ 64 - 2 ^ 63"

function executeWithRetryLoop ::
  "unit prog \<Rightarrow> int \<Rightarrow> int \<Rightarrow> int \<Rightarrow> unit prog" where
  "executeWithRetryLoop action maxRetries attempt backoff w =
     (if attempt \<le> maxRetries then
        (case action w of
           (Ok u, w1) \<Rightarrow> (Ok (), w1)
         | (Panic, w1) \<Rightarrow> (Panic, w1)
         | (Err e, w1) \<Rightarrow>
             (let w2 = Sleep backoff w1;
                  backoff1 = int64 (backoff * 2);
                  backoff2 = (if backoff1 > 32 * Second then 32 * Second else backoff1)
              in executeWithRetryLoop action maxRetries (attempt + 1) backoff2 w2))
      else (Err (Msg (''scaling action failed after '' @ showInt maxRetries @ '' attempts'')), w))"
  by pat_completeness auto
termination
  by (relation "measure (\<lambda>(action, maxRetries, attempt, backoff, w). nat (maxRetries + 1 - attempt))") auto

declare executeWithRetryLoop.simps [simp del]

definition executeWithRetry :: "unit prog \<Rightarrow> int \<Rightarrow> int \<Rightarrow> unit prog" where
  "executeWithRetry action maxRetries initialBackoff =
     executeWithRetryLoop action maxRetries 1 initialBackoff"

text \<open>
  \<open>processScaling\<close>; \<open>json.Unmarshal\<close> is a parameter. The function returns the numbers
  of replicas to add and to remove, the error, and the autoscaler it has updated.
\<close>

record ScalingMessage =
  ScalingType :: string
  NumberReplicas :: int

definition processScaling ::
  "(string \<Rightarrow> ScalingMessage option) \<Rightarrow> DocumentDB \<Rightarrow> string \<Rightarrow> int \<Rightarrow> int \<Rightarrow> world
     \<Rightarrow> (int \<times> int \<times> unit res) \<times> DocumentDB \<times> world" where
  "processScaling unmarshal autoscaler snsMessage maxRetries initialBackoff w =
     (case (if snsMessage \<noteq> [] then
              (case unmarshal snsMessage of
                 None \<Rightarrow> None
               | Some scalingMessage \<Rightarrow>
                   Some (autoscaler\<lparr>ScheduledScaling := False,
                                    ScheduleNumberReplicas := NumberReplicas scalingMessage\<rparr>))
            else Some autoscaler) of
        None \<Rightarrow> ((0, 0, Err UnmarshalError), autoscaler, w)
      | Some autoscaler1 \<Rightarrow>
          (let replicasToAdd = (if ScheduleNumberReplicas autoscaler1 > 0
                                then ScheduleNumberReplicas autoscaler1 else 0);
               replicasToRemove = (if ScheduleNumberReplicas autoscaler1 > 0 then 0
                                   else if ScheduleNumberReplicas autoscaler1 < 0
                                   then \<bar>ScheduleNumberReplicas autoscaler1\<bar> else 0)
           in (case executeWithRetry (ExecuteScalingAction autoscaler1) maxRetries initialBackoff w of
                 (r, w1) \<Rightarrow> ((replicasToAdd, replicasToRemove, r), autoscaler1, w1))))"

section \<open>Notions used in the statements\<close>

definition isRead :: "call \<Rightarrow> bool" where
  "isRead c =
     (case c of
        DescribeDBInstancesCall \<Rightarrow> True
      | DescribeDBClustersCall \<Rightarrow> True
      | ListTagsForResourceCall a \<Rightarrow> True
      | GetMetricStatisticsCall i \<Rightarrow> True
      | _ \<Rightarrow> False)"

definition isMutation :: "call \<Rightarrow> bool" where
  "isMutation c =
     (case c of
        CreateDBInstanceCall i k \<Rightarrow> True
      | AddTagsToResourceCall a k v \<Rightarrow> True
      | DeleteDBInstanceCall i \<Rightarrow> True
      | _ \<Rightarrow> False)"

definition newEvents :: "world \<Rightarrow> world \<Rightarrow> (call \<times> bool) list" where
  "newEvents w w' = drop (length (trace w)) (trace w')"

definition steps :: "(call \<Rightarrow> bool) \<Rightarrow> world \<Rightarrow> world \<Rightarrow> bool" where
  "steps P w w' = (\<exists>evs. trace w' = trace w @ evs \<and> (\<forall>e \<in> set evs. P (fst e)))"

definition onlyTrace :: "world \<Rightarrow> world \<Rightarrow> bool" where
  "onlyTrace w w' = (w' = w\<lparr>trace := trace w'\<rparr>)"

definition reads :: "world \<Rightarrow> world \<Rightarrow> bool" where
  "reads w w' = (onlyTrace w w' \<and> steps isRead w w')"

definition writerIdentifierOf :: "DBClusterMember list list \<Rightarrow> string option" where
  "writerIdentifierOf clusters =
     (case clusters of
        [] \<Rightarrow> None
      | dbCluster # _ \<Rightarrow> map_option MemberInstanceIdentifier (find IsClusterWriter dbCluster))"

definition readersOf :: "string \<Rightarrow> DBInstance list \<Rightarrow> DBInstance list" where
  "readersOf writerIdentifier instances =
     filter (\<lambda>instance. DBInstanceIdentifier instance \<noteq> writerIdentifier) instances"

text \<open>
  Kinds of calls. A mutation is a call that changes the directory: a create, a tag write
  or a delete.
\<close>

definition isDelete :: "call \<Rightarrow> bool" where
  "isDelete c = (case c of DeleteDBInstanceCall i \<Rightarrow> True | _ \<Rightarrow> False)"

definition isDescribe :: "call \<Rightarrow> bool" where
  "isDescribe c = (c = DescribeDBInstancesCall \<or> c = DescribeDBClustersCall)"

definition isTagRead :: "call \<Rightarrow> bool" where
  "isTagRead c = (case c of ListTagsForResourceCall a \<Rightarrow> True | _ \<Rightarrow> False)"

definition isDryRunRecord :: "call \<Rightarrow> bool" where
  "isDryRunRecord c = (case c of DryRunRecord i \<Rightarrow> True | _ \<Rightarrow> False)"

definition isScaleNotification :: "call \<Rightarrow> bool" where
  "isScaleNotification c =
     (case c of
        ScaleOutNotificationCall i n \<Rightarrow> True
      | ScaleInNotificationCall i n \<Rightarrow> True
      | _ \<Rightarrow> False)"

definition isFailureNotification :: "call \<Rightarrow> bool" where
  "isFailureNotification c = (case c of FailureNotificationCall i m a \<Rightarrow> True | _ \<Rightarrow> False)"

text \<open>
  The calls a reconciliation may make, whatever the world: reads, scale notifications,
  and either dry-run records (with \<open>DryRun\<close>) or mutations (without).
\<close>

definition engineCall :: "DocumentDB \<Rightarrow> call \<Rightarrow> bool" where
  "engineCall d c =
     (isRead c \<or> isScaleNotification c
      \<or> (if DryRun d then isDryRunRecord c else isMutation c))"

text \<open>
  What no call of the engine changes: the membership of the cluster, the metric data, the
  ARNs the directory assigns, the pattern of failures and the clock.
\<close>

definition frame :: "world \<Rightarrow> world \<Rightarrow> bool" where
  "frame w w' =
     (dbClusters w' = dbClusters w \<and> datapoints w' = datapoints w \<and> arnFor w' = arnFor w
      \<and> faults w' = faults w \<and> clock w' = clock w)"

text \<open>
  The ownership tag and the identifier suffix of each mode.
\<close>

definition modeTagKey :: "DocumentDB \<Rightarrow> string" where
  "modeTagKey d =
     (if ScheduledScaling d then ''docdb-autoscaler-scheduler'' else ''docdb-autoscaler-created'')"

definition modeSuffix :: "DocumentDB \<Rightarrow> string" where
  "modeSuffix d = (if ScheduledScaling d then ''scheduler'' else ''reader'')"

text \<open>
  An identifier names an owned reader when the writer is known and has another
  identifier, and an instance of the inventory with this identifier is available and
  carries the tag with the value \<open>true\<close>.
\<close>

definition isOwnedReader :: "string \<Rightarrow> world \<Rightarrow> string \<Rightarrow> bool" where
  "isOwnedReader tagKey w identifier =
     (case writerIdentifierOf (dbClusters w) of
        None \<Rightarrow> False
      | Some writerIdentifier \<Rightarrow>
          identifier \<noteq> writerIdentifier
          \<and> list_ex (\<lambda>i. DBInstanceIdentifier i = identifier
                          \<and> DBInstanceStatus i = ''available''
                          \<and> hasTag tagKey (tagLists w (DBInstanceArn i)))
                (dbInstances w))"

text \<open>
  An identifier that the pipeline of the provisioner generates from some reading of the
  clock.
\<close>

definition generatedIdentifier :: "DocumentDB \<Rightarrow> string \<Rightarrow> world \<Rightarrow> string \<Rightarrow> bool" where
  "generatedIdentifier d suffix w identifier =
     (\<exists>n uniqueID. uniqueIDOf (clock w n) = Some uniqueID
        \<and> newIdentifier (ClusterID d) suffix uniqueID = Some identifier)"

text \<open>
  The reader count, as \<open>GetCurrentCapacity\<close> computes it: the instances other than the
  writer.
\<close>

definition readerCount :: "world \<Rightarrow> int" where
  "readerCount w =
     (case writerIdentifierOf (dbClusters w) of
        None \<Rightarrow> int (length (dbInstances w))
      | Some writerIdentifier \<Rightarrow> int (length (readersOf writerIdentifier (dbInstances w))))"

text \<open>
  What the creation loops do between two worlds: they describe the cluster, create and
  tag (or record, in a dry run), and add at most \<open>n\<close> instances at the end of the
  inventory.
\<close>

definition createCall :: "DocumentDB \<Rightarrow> string \<Rightarrow> world \<Rightarrow> call \<Rightarrow> bool" where
  "createCall d suffix w c =
     (isDescribe c
      \<or> (if DryRun d then isDryRunRecord c
          else (case c of
                  CreateDBInstanceCall i k \<Rightarrow> generatedIdentifier d suffix w i
                | AddTagsToResourceCall a k v \<Rightarrow> True
                | _ \<Rightarrow> False)))"

definition grows :: "nat \<Rightarrow> world \<Rightarrow> world \<Rightarrow> bool" where
  "grows n w w' =
     (\<exists>new. dbInstances w' = dbInstances w @ new \<and> length new \<le> n)"

definition creates :: "DocumentDB \<Rightarrow> string \<Rightarrow> nat \<Rightarrow> world \<Rightarrow> world \<Rightarrow> bool" where
  "creates d suffix n w w' =
     (frame w w' \<and> steps (createCall d suffix w) w w' \<and> grows n w w'
      \<and> (DryRun d \<longrightarrow> dbInstances w' = dbInstances w \<and> tagLists w' = tagLists w))"

text \<open>
  The calls a reconciliation started in the world \<open>w\<close> may make: the identifier of a
  create call is generated, the identifier of a delete call names a reader that its mode
  owns in \<open>w\<close>.
\<close>

definition engineCallAt :: "DocumentDB \<Rightarrow> world \<Rightarrow> call \<Rightarrow> bool" where
  "engineCallAt d w c =
     (isRead c \<or> isScaleNotification c
      \<or> (if DryRun d then isDryRunRecord c
          else (case c of
                  CreateDBInstanceCall i k \<Rightarrow> generatedIdentifier d (modeSuffix d) w i
                | AddTagsToResourceCall a k v \<Rightarrow> True
                | DeleteDBInstanceCall i \<Rightarrow> isOwnedReader (modeTagKey d) w i
                | _ \<Rightarrow> False)))"

text \<open>
  What \<open>RemoveReplica\<close> does: it reads, and then either stops or handles one owned
  reader, which it deletes or, in a dry run, records.
\<close>

definition removal :: "DocumentDB \<Rightarrow> world \<Rightarrow> unit res \<Rightarrow> world \<Rightarrow> bool" where
  "removal d w r w' =
     (\<exists>w1. reads w w1 \<and> r \<noteq> Panic
        \<and> (w' = w1
            \<or> (\<exists>i. isOwnedReader ''docdb-autoscaler-created'' w i
                  \<and> (if DryRun d then logDryRun i w1 = (r, w')
                      else DeleteDBInstance i w1 = (r, w')))))"

text \<open>
  What \<open>RemoveScheduledReplicas\<close> does with the instances it is given.
\<close>

definition scheduledDelete :: "DocumentDB \<Rightarrow> DBInstance list \<Rightarrow> call \<Rightarrow> bool" where
  "scheduledDelete d instances c =
     (if DryRun d then isDryRunRecord c
      else list_ex (\<lambda>i. DBInstanceStatus i = ''available''
                        \<and> c = DeleteDBInstanceCall (DBInstanceIdentifier i)) instances)"

definition scheduledRemoval :: "DocumentDB \<Rightarrow> DBInstance list \<Rightarrow> world \<Rightarrow> world \<Rightarrow> bool" where
  "scheduledRemoval d instances w w' =
     (frame w w' \<and> tagLists w' = tagLists w
      \<and> steps (scheduledDelete d instances) w w'
      \<and> (DryRun d \<longrightarrow> dbInstances w' = dbInstances w)
      \<and> readerCount w' \<le> readerCount w)"

text \<open>
  The delete calls between two worlds; whether every tag lookup between them succeeded;
  the effects of a whole reconciliation; the one call of a notification.
\<close>

definition deletions :: "world \<Rightarrow> world \<Rightarrow> (call \<times> bool) list" where
  "deletions w w' = filter (\<lambda>e. isDelete (fst e)) (newEvents w w')"

definition noFailedTagRead :: "world \<Rightarrow> world \<Rightarrow> bool" where
  "noFailedTagRead w w' = list_all (\<lambda>e. isTagRead (fst e) \<longrightarrow> snd e) (newEvents w w')"

definition effects :: "DocumentDB \<Rightarrow> world \<Rightarrow> world \<Rightarrow> bool" where
  "effects d w w' =
     (frame w w' \<and> steps (engineCallAt d w) w w'
      \<and> (DryRun d \<longrightarrow> dbInstances w' = dbInstances w \<and> tagLists w' = tagLists w))"

definition notified :: "call \<Rightarrow> world \<Rightarrow> world \<Rightarrow> bool" where
  "notified c w w' = (onlyTrace w w' \<and> (\<exists>ok. newEvents w w' = [(c, ok)]) \<and> steps (\<lambda>x. x = c) w w')"

text \<open>
  The schedule-owned readers, and the number of replicas the scale-out of the schedule
  mode decides to add (\<open>None\<close> where it returns early).
\<close>

definition scheduledOf :: "string \<Rightarrow> world \<Rightarrow> DBInstance list" where
  "scheduledOf writerIdentifier w =
     filter (\<lambda>i. hasTag ''docdb-autoscaler-scheduler'' (tagLists w (DBInstanceArn i)))
       (readersOf writerIdentifier (dbInstances w))"

definition scheduledReplicasToAdd :: "DocumentDB \<Rightarrow> int \<Rightarrow> int option" where
  "scheduledReplicasToAdd d current =
     (let replicasToAdd = ScheduleNumberReplicas d;
          desiredCapacity = current + replicasToAdd
      in if desiredCapacity > MaxCapacity d \<and> MaxCapacity d - current \<le> 0 then None
         else Some (if desiredCapacity < MinCapacity d then MinCapacity d - current
                    else if desiredCapacity > MaxCapacity d then MaxCapacity d - current
                    else replicasToAdd))"

definition isScaledOut :: "world \<Rightarrow> bool" where
  "isScaledOut w =
     (case writerIdentifierOf (dbClusters w) of
        None \<Rightarrow> False
      | Some writerIdentifier \<Rightarrow> scheduledOf writerIdentifier w \<noteq> [])"

text \<open>
  A world in which no call fails, and the outcome of a scale-in that removed the reader
  with the given identifier.
\<close>

definition nofaults :: "world \<Rightarrow> bool" where
  "nofaults w = (\<forall>n. \<not> faults w n)"

definition removedOne :: "DocumentDB \<Rightarrow> world \<Rightarrow> unit res \<Rightarrow> world \<Rightarrow> string \<Rightarrow> bool" where
  "removedOne d w r w' identifier =
     (\<not> DryRun d \<and> isOwnedReader ''docdb-autoscaler-created'' w identifier
      \<and> deletions w w' = [(DeleteDBInstanceCall identifier, True)]
      \<and> dbInstances w' = removeInstance identifier (dbInstances w)
      \<and> r = Ok ()
      \<and> list_ex (\<lambda>e. fst e = ScaleInNotificationCall (ClusterID d) 1) (newEvents w w'))"

text \<open>
  The time slept in a trace, and the number of attempts in a trace of reconciliations
  that fail at their first call.
\<close>

definition sleepOf :: "call \<Rightarrow> int" where
  "sleepOf c = (case c of SleepCall n \<Rightarrow> n | _ \<Rightarrow> 0)"

definition totalSleep :: "(call \<times> bool) list \<Rightarrow> int" where
  "totalSleep events = sum_list (map (\<lambda>e. sleepOf (fst e)) events)"

definition attempts :: "(call \<times> bool) list \<Rightarrow> nat" where
  "attempts events = length (filter (\<lambda>e. fst e = DescribeDBInstancesCall) events)"

text \<open>
  The backoff after a failed attempt, and the world after \<open>n\<close> failed attempts, each
  followed by its sleep.
\<close>

definition nextBackoff :: "int \<Rightarrow> int" where
  "nextBackoff backoff =
     (let backoff1 = int64 (backoff * 2)
      in if backoff1 > 32 * Second then 32 * Second else backoff1)"

fun failedRounds :: "unit prog \<Rightarrow> nat \<Rightarrow> int \<Rightarrow> world \<Rightarrow> world" where
  "failedRounds action 0 backoff w = w"
| "failedRounds action (Suc n) backoff w =
     failedRounds action n (nextBackoff backoff) (Sleep backoff (snd (action w)))"

section \<open>Configurations and worlds of the repository's tests\<close>

definition testConfig :: DocumentDB where
  "testConfig =
     \<lparr>ClusterID = ''test-cluster'', MinCapacity = 1, MaxCapacity = 5,
      MetricName = ''CPUUtilization'', TargetValue = 50,
      ScaleInCooldown = 0, ScaleOutCooldown = 0, InstanceType = [],
      DryRun = False, ScheduledScaling = True, ScheduleNumberReplicas = 2\<rparr>"

definition testInstance :: "string \<Rightarrow> string \<Rightarrow> DBInstance" where
  "testInstance identifier status =
     \<lparr>DBInstanceIdentifier = identifier, DBInstanceArn = ''arn:'' @ identifier,
      DBInstanceStatus = status, DBInstanceClass = ''db.r6g.large''\<rparr>"

definition testWorld :: world where
  "testWorld =
     \<lparr>dbInstances = [testInstance ''replica-1'' ''available'',
                     testInstance ''writer-instance'' ''available''],
      dbClusters = [[\<lparr>MemberInstanceIdentifier = ''writer-instance'', IsClusterWriter = True\<rparr>,
                     \<lparr>MemberInstanceIdentifier = ''replica-1'', IsClusterWriter = False\<rparr>]],
      tagLists = (\<lambda>arn. []),
      datapoints = (\<lambda>identifier. [\<lparr>Timestamp = 1, Average = 80\<rparr>]),
      arnFor = (\<lambda>identifier. Some (''arn:'' @ identifier)),
      faults = (\<lambda>n. False),
      clock = (\<lambda>n. 1700000000123456789 + int n),
      ticks = 0,
      trace = []\<rparr>"


definition metricConfig :: DocumentDB where
  "metricConfig = testConfig\<lparr>ScheduledScaling := False\<rparr>"

definition schedulerTag :: Tag where
  "schedulerTag = \<lparr>TagKey = ''docdb-autoscaler-scheduler'', TagValue = ''true''\<rparr>"

definition autoscalerTag :: Tag where
  "autoscalerTag = \<lparr>TagKey = ''docdb-autoscaler-created'', TagValue = ''true''\<rparr>"

text \<open>
  The world of the test of the scheduled scale-in: the only reader carries the scheduler
  tag.
\<close>

definition scaledOutWorld :: world where
  "scaledOutWorld =
     testWorld\<lparr>tagLists := (\<lambda>arn. if arn = ''arn:replica-1'' then [schedulerTag] else [])\<rparr>"

text \<open>Two readers under a low load (average 10 against the target 50), none of them tagged.\<close>

definition twoReaderWorld :: world where
  "twoReaderWorld =
     testWorld\<lparr>dbInstances := [testInstance ''replica-1'' ''available'',
                                testInstance ''replica-2'' ''available'',
                                testInstance ''writer-instance'' ''available''],
                datapoints := (\<lambda>identifier. [\<lparr>Timestamp = 1, Average = 10\<rparr>])\<rparr>"

text \<open>The same, the second reader created by the metric mode.\<close>

definition ownedReaderWorld :: world where
  "ownedReaderWorld =
     twoReaderWorld\<lparr>tagLists := (\<lambda>arn. if arn = ''arn:replica-2'' then [autoscalerTag] else [])\<rparr>"

text \<open>
  The same, where the lookup of the first reader's tags fails: in the metric mode it is the
  ninth call of the reconciliation, in the schedule mode the third.
\<close>

definition tagFailureWorld :: world where
  "tagFailureWorld = ownedReaderWorld\<lparr>faults := (\<lambda>n. n = 8)\<rparr>"

definition scheduleTagFailureWorld :: world where
  "scheduleTagFailureWorld = scaledOutWorld\<lparr>faults := (\<lambda>n. n = 2)\<rparr>"

text \<open>
  A cluster whose writer is a replica the schedule mode created earlier, promoted since,
  and whose identifier ends in the digits the clock shows next.
\<close>

definition promotedWriterWorld :: world where
  "promotedWriterWorld =
     testWorld\<lparr>dbInstances := [testInstance ''replica-1'' ''available'',
                                testInstance ''test-cluster-scheduler-123456789'' ''available''],
                dbClusters := [[\<lparr>MemberInstanceIdentifier = ''test-cluster-scheduler-123456789'',
                                 IsClusterWriter = True\<rparr>,
                               \<lparr>MemberInstanceIdentifier = ''replica-1'',
                                 IsClusterWriter = False\<rparr>]]\<rparr>"

text \<open>A directory that answers no call.\<close>

definition unreachableWorld :: world where
  "unreachableWorld = testWorld\<lparr>faults := (\<lambda>n. True)\<rparr>"

text \<open>A cluster identifier with three hyphens in a row, and one of 71 characters that
  starts with a digit.\<close>

definition hyphenConfig :: DocumentDB where
  "hyphenConfig = testConfig\<lparr>ClusterID := ''a---b''\<rparr>"

definition longClusterID :: string where
  "longClusterID = CHR ''1'' # replicate 70 (CHR ''a'')"

section \<open>Lemmas about the engine\<close>

subsection \<open>Reading the directory\<close>

text \<open>
  A function that only reads leaves the world as it was, up to the trace, to which it
  adds read calls.
\<close>

lemma steps_refl: "steps P w w"
  by (simp add: steps_def)

lemma steps_trans: "steps P w w1 \<Longrightarrow> steps P w1 w2 \<Longrightarrow> steps P w w2"
  by (auto simp: steps_def)

lemma steps_mono: "steps P w w' \<Longrightarrow> (\<And>c. P c \<Longrightarrow> Q c) \<Longrightarrow> steps Q w w'"
  by (auto simp: steps_def)

lemma steps_newEvents: "steps P w w' \<Longrightarrow> e \<in> set (newEvents w w') \<Longrightarrow> P (fst e)"
  by (auto simp: steps_def newEvents_def)

lemma onlyTrace_refl: "onlyTrace w w"
  by (simp add: onlyTrace_def)

lemma onlyTrace_trans: 
  assumes "onlyTrace w w1" "onlyTrace w1 w2" shows "onlyTrace w w2"
proof -
  from assms(1) have a: "w1 = w\<lparr>trace := trace w1\<rparr>" by (simp add: onlyTrace_def)
  from assms(2) have b: "w2 = w1\<lparr>trace := trace w2\<rparr>" by (simp add: onlyTrace_def)
  have "w1\<lparr>trace := trace w2\<rparr> = (w\<lparr>trace := trace w1\<rparr>)\<lparr>trace := trace w2\<rparr>"
    using a by (rule arg_cong)
  with b have "w2 = w\<lparr>trace := trace w2\<rparr>" by simp
  then show ?thesis by (simp add: onlyTrace_def)
qed

lemma reads_refl: "reads w w"
  by (simp add: reads_def steps_refl onlyTrace_refl)

lemma reads_trans: "reads w w1 \<Longrightarrow> reads w1 w2 \<Longrightarrow> reads w w2"
  unfolding reads_def using steps_trans onlyTrace_trans by blast

lemma onlyTrace_fields:
  assumes "onlyTrace w w'"
  shows "dbInstances w' = dbInstances w \<and> dbClusters w' = dbClusters w
     \<and> tagLists w' = tagLists w \<and> datapoints w' = datapoints w \<and> arnFor w' = arnFor w
     \<and> faults w' = faults w \<and> clock w' = clock w \<and> ticks w' = ticks w"
proof -
  from assms have a: "w' = w\<lparr>trace := trace w'\<rparr>" by (simp add: onlyTrace_def)
  show ?thesis by (subst a, subst (2) a, subst (3) a, subst (4) a, subst (5) a, subst (6) a, subst (7) a, subst (8) a) simp
qed

lemma andThenE:
  assumes "andThen m f w = (r, w')"
  obtains (ok) x w1 where "m w = (Ok x, w1)" "f x w1 = (r, w')"
        | (err) e where "m w = (Err e, w')" "r = Err e"
        | (panic) "m w = (Panic, w')" "r = Panic"
  using assms by (auto simp: andThen_def split: prod.splits res.splits)

lemma request_cases:
  assumes "request c answer effect w = (r, w')"
  shows "(r = Err (Fault (length (trace w))) \<and> w' = w\<lparr>trace := trace w @ [(c, False)]\<rparr>)
       \<or> (r = Ok (answer (w\<lparr>trace := trace w @ [(c, True)]\<rparr>))
            \<and> w' = effect (w\<lparr>trace := trace w @ [(c, True)]\<rparr>))"
  using assms by (cases "faults w (length (trace w))") (auto simp: request_def Let_def)

lemma reads_fields:
  "reads w w' \<Longrightarrow> dbInstances w' = dbInstances w \<and> dbClusters w' = dbClusters w
     \<and> tagLists w' = tagLists w \<and> datapoints w' = datapoints w \<and> arnFor w' = arnFor w
     \<and> faults w' = faults w \<and> clock w' = clock w \<and> ticks w' = ticks w"
  using onlyTrace_fields by (simp add: reads_def)

lemma ret_eq: "ret x w = (r, w') \<Longrightarrow> r = Ok x \<and> w' = w"
  by (auto simp: ret_def)

lemma failWith_eq: "failWith e w = (r, w') \<Longrightarrow> r = Err e \<and> w' = w"
  by (auto simp: failWith_def)

lemma request_reads:
  assumes "request c answer (\<lambda>w. w) w = (r, w')" "isRead c"
  shows "reads w w' \<and> r \<noteq> Panic
       \<and> (\<forall>x. r = Ok x \<longrightarrow> x = answer (w\<lparr>trace := trace w @ [(c, True)]\<rparr>)
                           \<and> newEvents w w' = [(c, True)])
       \<and> (\<forall>e. r = Err e \<longrightarrow> newEvents w w' = [(c, False)])"
proof -
  from request_cases[OF assms(1)]
  consider "r = Err (Fault (length (trace w)))" "w' = w\<lparr>trace := trace w @ [(c, False)]\<rparr>"
    | "r = Ok (answer (w\<lparr>trace := trace w @ [(c, True)]\<rparr>))"
      "w' = w\<lparr>trace := trace w @ [(c, True)]\<rparr>"
    by blast
  then show ?thesis
  proof cases
    case 1
    with assms(2) show ?thesis
      by (simp add: reads_def onlyTrace_def steps_def newEvents_def)
  next
    case 2
    with assms(2) show ?thesis
      by (simp add: reads_def onlyTrace_def steps_def newEvents_def)
  qed
qed

lemma DescribeDBInstances_reads:
  "DescribeDBInstances w = (r, w') \<Longrightarrow>
     reads w w' \<and> r \<noteq> Panic \<and> (\<forall>x. r = Ok x \<longrightarrow> x = dbInstances w)"
  unfolding DescribeDBInstances_def
  by (drule request_reads) (simp_all add: isRead_def)

lemma DescribeDBClusters_reads:
  "DescribeDBClusters w = (r, w') \<Longrightarrow>
     reads w w' \<and> r \<noteq> Panic \<and> (\<forall>x. r = Ok x \<longrightarrow> x = dbClusters w)"
  unfolding DescribeDBClusters_def
  by (drule request_reads) (simp_all add: isRead_def)

lemma ListTagsForResource_reads:
  "ListTagsForResource arn w = (r, w') \<Longrightarrow>
     reads w w' \<and> r \<noteq> Panic
     \<and> (\<forall>x. r = Ok x \<longrightarrow> x = tagLists w arn
                         \<and> newEvents w w' = [(ListTagsForResourceCall arn, True)])
     \<and> (\<forall>e. r = Err e \<longrightarrow> newEvents w w' = [(ListTagsForResourceCall arn, False)])"
  unfolding ListTagsForResource_def
  by (drule request_reads) (simp_all add: isRead_def)

lemma GetMetricStatistics_reads:
  "GetMetricStatistics i w = (r, w') \<Longrightarrow>
     reads w w' \<and> r \<noteq> Panic \<and> (\<forall>x. r = Ok x \<longrightarrow> x = datapoints w i)"
  unfolding GetMetricStatistics_def
  by (drule request_reads) (simp_all add: isRead_def)

lemma GetWriterInstanceIdentifier_reads:
  assumes "GetWriterInstanceIdentifier d w = (r, w')"
  shows "reads w w' \<and> r \<noteq> Panic
       \<and> (\<forall>wid. r = Ok wid \<longrightarrow> writerIdentifierOf (dbClusters w) = Some wid)"
  using assms unfolding GetWriterInstanceIdentifier_def
  by (elim andThenE)
     (auto dest!: DescribeDBClusters_reads ret_eq failWith_eq
           simp: writerIdentifierOf_def split: list.splits option.splits)

lemma GetReaderInstances_reads:
  assumes "GetReaderInstances d w = (r, w')"
  shows "reads w w' \<and> r \<noteq> Panic
       \<and> (\<forall>rs. r = Ok rs \<longrightarrow>
            (\<exists>wid. writerIdentifierOf (dbClusters w) = Some wid
                   \<and> rs = readersOf wid (dbInstances w)))"
  using assms unfolding GetReaderInstances_def
  apply (elim andThenE)
  apply (auto dest!: DescribeDBInstances_reads GetWriterInstanceIdentifier_reads ret_eq
          simp: readersOf_def reads_fields intro: reads_trans)
  done

lemma GetCurrentCapacity_reads:
  assumes "GetCurrentCapacity d w = (r, w')"
  shows "reads w w' \<and> r \<noteq> Panic
       \<and> (\<forall>c. r = Ok c \<longrightarrow>
            (\<exists>wid. writerIdentifierOf (dbClusters w) = Some wid
                   \<and> c = int (length (readersOf wid (dbInstances w)))))"
  using assms unfolding GetCurrentCapacity_def
  by (elim andThenE) (auto dest!: GetReaderInstances_reads ret_eq)

lemma GetWriterInstance_reads:
  assumes "GetWriterInstance d w = (r, w')"
  shows "reads w w' \<and> r \<noteq> Panic"
  using assms unfolding GetWriterInstance_def
  apply (elim andThenE)
  apply (auto dest!: DescribeDBInstances_reads GetWriterInstanceIdentifier_reads ret_eq failWith_eq
          split: option.splits intro: reads_trans)
  done

lemma HasAutoscalerTag_reads:
  assumes "HasAutoscalerTag instance w = (r, w')"
  shows "reads w w' \<and> r \<noteq> Panic
       \<and> (\<forall>b. r = Ok b \<longrightarrow> b = hasTag ''docdb-autoscaler-created'' (tagLists w (DBInstanceArn instance)))"
  using assms unfolding HasAutoscalerTag_def
  by (elim andThenE) (auto dest!: ListTagsForResource_reads ret_eq)

lemma HasSchedulerTag_reads:
  assumes "HasSchedulerTag instance w = (r, w')"
  shows "reads w w' \<and> r \<noteq> Panic
       \<and> (\<forall>b. r = Ok b \<longrightarrow> b = hasTag ''docdb-autoscaler-scheduler'' (tagLists w (DBInstanceArn instance)))
       \<and> (\<forall>b. r = Ok b \<longrightarrow> newEvents w w' = [(ListTagsForResourceCall (DBInstanceArn instance), True)])
       \<and> (\<forall>e. r = Err e \<longrightarrow> newEvents w w' = [(ListTagsForResourceCall (DBInstanceArn instance), False)])"
  using assms unfolding HasSchedulerTag_def
  by (elim andThenE) (auto dest!: ListTagsForResource_reads ret_eq)

lemma sumLatestDatapoints_reads:
  "sumLatestDatapoints instances acc w = (r, w') \<Longrightarrow> reads w w' \<and> r \<noteq> Panic"
proof (induction instances arbitrary: acc w)
  case Nil
  then show ?case by (auto simp: reads_refl)
next
  case (Cons i rest)
  obtain r1 w1 where g: "GetMetricStatistics (DBInstanceIdentifier i) w = (r1, w1)"
    by (cases "GetMetricStatistics (DBInstanceIdentifier i) w")
  from GetMetricStatistics_reads[OF g] have r1: "reads w w1" "r1 \<noteq> Panic" by auto
  show ?case
  proof (cases r1)
    case (Ok dps)
    show ?thesis
    proof (cases "dps = []")
      case True
      with Cons.prems g Ok r1 show ?thesis by auto
    next
      case False
      with Cons.prems g Ok
      have "sumLatestDatapoints rest (acc + Average (last (sort_key Timestamp dps))) w1 = (r, w')"
        by simp
      from Cons.IH[OF this] r1 show ?thesis by (auto intro: reads_trans)
    qed
  next
    case (Err e)
    with Cons.prems g r1 show ?thesis by auto
  next
    case Panic
    with r1 show ?thesis by simp
  qed
qed

lemma GetCurrentMetricValue_reads:
  assumes "GetCurrentMetricValue d w = (r, w')"
  shows "reads w w' \<and> r \<noteq> Panic"
  using assms unfolding GetCurrentMetricValue_def
  apply (elim andThenE)
  apply (auto dest!: GetReaderInstances_reads sumLatestDatapoints_reads ret_eq failWith_eq
          split: if_splits elim!: andThenE intro: reads_trans)
  done

subsection \<open>Calls that change the directory\<close>

lemma reads_frame: "reads w w' \<Longrightarrow> frame w w'"
  using reads_fields by (simp add: frame_def)

lemma frame_refl: "frame w w"
  by (simp add: frame_def)

lemma frame_trans: "frame w w1 \<Longrightarrow> frame w1 w2 \<Longrightarrow> frame w w2"
  by (simp add: frame_def)

lemma reads_steps: "reads w w' \<Longrightarrow> (\<And>c. isRead c \<Longrightarrow> P c) \<Longrightarrow> steps P w w'"
  unfolding reads_def using steps_mono by blast

lemma request_effect:
  assumes "request c answer effect w = (r, w')"
      and "\<And>v. trace (effect v) = trace v"
  shows "r \<noteq> Panic \<and> steps (\<lambda>x. x = c) w w'
       \<and> ((\<exists>e. r = Err e) \<and> w' = w\<lparr>trace := trace w @ [(c, False)]\<rparr>
          \<or> r = Ok (answer (w\<lparr>trace := trace w @ [(c, True)]\<rparr>))
            \<and> w' = effect (w\<lparr>trace := trace w @ [(c, True)]\<rparr>))"
proof -
  from request_cases[OF assms(1)]
  consider "r = Err (Fault (length (trace w)))" "w' = w\<lparr>trace := trace w @ [(c, False)]\<rparr>"
    | "r = Ok (answer (w\<lparr>trace := trace w @ [(c, True)]\<rparr>))"
      "w' = effect (w\<lparr>trace := trace w @ [(c, True)]\<rparr>)"
    by blast
  then show ?thesis
  proof cases
    case 1
    then show ?thesis by (simp add: steps_def)
  next
    case 2
    then show ?thesis by (simp add: steps_def assms(2))
  qed
qed

lemma CreateDBInstance_effect:
  assumes "CreateDBInstance identifier k w = (r, w')"
  shows "r \<noteq> Panic \<and> frame w w' \<and> tagLists w' = tagLists w \<and> ticks w' = ticks w
       \<and> steps (\<lambda>c. c = CreateDBInstanceCall identifier k) w w' \<and> grows 1 w w'"
  using request_effect[OF assms[unfolded CreateDBInstance_def]]
  by (auto simp: frame_def grows_def)

lemma AddTagsToResource_effect:
  assumes "AddTagsToResource arn k v w = (r, w')"
  shows "r \<noteq> Panic \<and> frame w w' \<and> dbInstances w' = dbInstances w \<and> ticks w' = ticks w
       \<and> steps (\<lambda>c. c = AddTagsToResourceCall arn k v) w w'"
  using request_effect[OF assms[unfolded AddTagsToResource_def]]
  by (auto simp: frame_def)

lemma DeleteDBInstance_effect:
  assumes "DeleteDBInstance identifier w = (r, w')"
  shows "r \<noteq> Panic \<and> frame w w' \<and> tagLists w' = tagLists w \<and> ticks w' = ticks w
       \<and> steps (\<lambda>c. c = DeleteDBInstanceCall identifier) w w'
       \<and> (dbInstances w' = dbInstances w
            \<or> r = Ok () \<and> dbInstances w' = removeInstance identifier (dbInstances w))
       \<and> ((\<exists>e. r = Err e) \<and> newEvents w w' = [(DeleteDBInstanceCall identifier, False)]
            \<or> r = Ok () \<and> newEvents w w' = [(DeleteDBInstanceCall identifier, True)])"
  using request_effect[OF assms[unfolded DeleteDBInstance_def]]
  by (auto simp: frame_def newEvents_def)

lemma andThen_steps:
  assumes "andThen m f w = (r, w')"
      and "\<And>r1 w1. m w = (r1, w1) \<Longrightarrow> steps P w w1"
      and "\<And>x w1. m w = (Ok x, w1) \<Longrightarrow> f x w1 = (r, w') \<Longrightarrow> steps P w1 w'"
  shows "steps P w w'"
  using assms(1)
proof (cases rule: andThenE)
  case (ok x w1)
  from assms(2)[OF ok(1)] assms(3)[OF ok(1) ok(2)] show ?thesis by (rule steps_trans)
next
  case (err e)
  from assms(2)[OF err(1)] show ?thesis .
next
  case panic
  from assms(2)[OF panic(1)] show ?thesis .
qed

lemma request_steps:
  assumes "request c answer effect w = (r, w')" "\<And>v. trace (effect v) = trace v" "P c"
  shows "steps P w w'"
  using request_effect[OF assms(1,2)] assms(3) by (auto intro: steps_mono)

lemma DescribeDBInstances_describes:
  "DescribeDBInstances w = (r, w') \<Longrightarrow> steps isDescribe w w'"
  unfolding DescribeDBInstances_def by (erule request_steps) (simp_all add: isDescribe_def)

lemma DescribeDBClusters_describes:
  "DescribeDBClusters w = (r, w') \<Longrightarrow> steps isDescribe w w'"
  unfolding DescribeDBClusters_def by (erule request_steps) (simp_all add: isDescribe_def)

lemma GetWriterInstanceIdentifier_describes:
  assumes "GetWriterInstanceIdentifier d w = (r, w')"
  shows "steps isDescribe w w'"
  using assms unfolding GetWriterInstanceIdentifier_def
  by (rule andThen_steps)
     (auto dest: DescribeDBClusters_describes dest!: ret_eq failWith_eq
           simp: steps_refl split: list.splits option.splits)

lemma GetReaderInstances_describes:
  assumes "GetReaderInstances d w = (r, w')"
  shows "steps isDescribe w w'"
  using assms unfolding GetReaderInstances_def
  apply (rule andThen_steps)
   apply (erule DescribeDBInstances_describes)
  apply (erule andThen_steps)
   apply (erule GetWriterInstanceIdentifier_describes)
  apply (auto dest!: ret_eq simp: steps_refl)
  done

lemma GetWriterInstance_describes:
  assumes "GetWriterInstance d w = (r, w')"
  shows "steps isDescribe w w'"
  using assms unfolding GetWriterInstance_def
  apply (rule andThen_steps)
   apply (erule DescribeDBInstances_describes)
  apply (erule andThen_steps)
   apply (erule GetWriterInstanceIdentifier_describes)
  apply (auto dest!: ret_eq failWith_eq simp: steps_refl split: option.splits)
  done

subsection \<open>Creating replicas\<close>

text \<open>
  Each creation loop adds at most as many instances as it has iterations, and in a dry
  run none.
\<close>

lemma steps_same_trace: "trace w' = trace w \<Longrightarrow> steps P w w'"
  by (simp add: steps_def)

lemma grows_refl: "grows n w w"
  by (simp add: grows_def)

lemma grows_trans: "grows m w w1 \<Longrightarrow> grows n w1 w2 \<Longrightarrow> grows (m + n) w w2"
  by (auto simp: grows_def)

lemma grows_same: "dbInstances w' = dbInstances w \<Longrightarrow> grows n w w'"
  by (simp add: grows_def)

lemma ignoreError_eq:
  assumes "ignoreError m w = (r, w')"
  shows "\<exists>r1. m w = (r1, w') \<and> (r = Panic \<longleftrightarrow> r1 = Panic) \<and> (r \<noteq> Panic \<longrightarrow> r = Ok ())"
  using assms by (cases "m w"; cases "fst (m w)") (auto simp: ignoreError_def)

lemma createReplica_creates:
  assumes "createReplica d suffix tagKey k w = (r, w')"
  shows "creates d suffix 1 w w'"
proof -
  define w1 where "w1 = w\<lparr>ticks := Suc (ticks w)\<rparr>"
  have w1: "frame w w1" "trace w1 = trace w" "dbInstances w1 = dbInstances w"
    "tagLists w1 = tagLists w"
    by (simp_all add: w1_def frame_def)
  have base: "creates d suffix 1 w w1"
    using w1 by (simp add: creates_def steps_same_trace grows_same)
  show ?thesis
  proof (cases "uniqueIDOf (clock w (ticks w))")
    case None
    with assms have "w' = w1" by (simp add: createReplica_def UnixNano_def w1_def)
    with base show ?thesis by simp
  next
    case uid: (Some uniqueID)
    show ?thesis
    proof (cases "newIdentifier (ClusterID d) suffix uniqueID")
      case None
      with assms uid have "w' = w1" by (simp add: createReplica_def UnixNano_def w1_def)
      with base show ?thesis by simp
    next
      case (Some baseIdentifier)
      with uid have gen: "generatedIdentifier d suffix w baseIdentifier"
        unfolding generatedIdentifier_def by blast
      show ?thesis
      proof (cases "DryRun d")
        case True
        with assms uid Some
        have "w' = w1\<lparr>trace := trace w1 @ [(DryRunRecord baseIdentifier, True)]\<rparr>"
          by (simp add: createReplica_def UnixNano_def w1_def logDryRun_def)
        with w1 True show ?thesis
          by (simp add: creates_def frame_def steps_def createCall_def isDryRunRecord_def grows_def)
      next
        case False
        have cc: "createCall d suffix w (CreateDBInstanceCall baseIdentifier k)"
          using False gen by (simp add: createCall_def)
        have ct: "\<And>a. createCall d suffix w (AddTagsToResourceCall a tagKey ''true'')"
          using False by (simp add: createCall_def)
        have after_create: "creates d suffix 1 w w2"
          if c: "CreateDBInstance baseIdentifier k w1 = (r2, w2)" for r2 w2
        proof -
          from CreateDBInstance_effect[OF c]
          have e: "frame w1 w2" "steps (\<lambda>c. c = CreateDBInstanceCall baseIdentifier k) w1 w2"
            "grows 1 w1 w2" by auto
          from e(1) w1(1) have "frame w w2" using frame_trans by blast
          moreover from e(2) cc have "steps (createCall d suffix w) w1 w2"
            by (auto intro: steps_mono)
          with w1(2) have "steps (createCall d suffix w) w w2" by (simp add: steps_def)
          moreover from e(3) w1(3) have "grows 1 w w2" by (simp add: grows_def)
          ultimately show ?thesis using False by (simp add: creates_def)
        qed
        obtain r2 w2 where c: "CreateDBInstance baseIdentifier k w1 = (r2, w2)"
          by (cases "CreateDBInstance baseIdentifier k w1")
        note c2 = after_create[OF c]
        note run = assms uid Some False c[unfolded w1_def]
        show ?thesis
        proof (cases r2)
          case (Ok arn)
          show ?thesis
          proof (cases arn)
            case None
            with run Ok have "w' = w2"
              by (simp add: createReplica_def UnixNano_def andThen_def failWith_def)
            with c2 show ?thesis by simp
          next
            case (Some instanceArn)
            with run Ok
            have "ignoreError (AddTagsToResource instanceArn tagKey ''true'') w2 = (r, w')"
              by (simp add: createReplica_def UnixNano_def andThen_def)
            then obtain r3 where
              t: "AddTagsToResource instanceArn tagKey ''true'' w2 = (r3, w')"
              using ignoreError_eq by fastforce
            from AddTagsToResource_effect[OF t]
            have e: "frame w2 w'" "dbInstances w' = dbInstances w2"
              "steps (\<lambda>c. c = AddTagsToResourceCall instanceArn tagKey ''true'') w2 w'" by auto
            from e(3) ct have "steps (createCall d suffix w) w2 w'"
              by (auto intro: steps_mono)
            with c2 e(1,2) False show ?thesis
              by (auto simp: creates_def grows_def intro: frame_trans steps_trans)
          qed
        next
          case (Err e)
          with run have "w' = w2"
            by (simp add: createReplica_def UnixNano_def andThen_def)
          with c2 show ?thesis by simp
        next
          case Panic
          with run have "w' = w2"
            by (simp add: createReplica_def UnixNano_def andThen_def)
          with c2 show ?thesis by simp
        qed
      qed
    qed
  qed
qed

lemma creates_trans:
  assumes "creates d suffix m w w1" "creates d suffix n w1 w2"
  shows "creates d suffix (m + n) w w2"
proof -
  from assms have f: "frame w w1" "frame w1 w2" by (simp_all add: creates_def)
  then have clk: "clock w1 = clock w" by (simp add: frame_def)
  have "createCall d suffix w1 = createCall d suffix w"
    by (rule ext) (simp add: createCall_def generatedIdentifier_def clk split: call.splits)
  with assms have "steps (createCall d suffix w) w w2"
    by (auto simp: creates_def intro: steps_trans)
  with assms f show ?thesis
    by (auto simp: creates_def intro: frame_trans grows_trans)
qed

lemma creates_refl: "creates d suffix n w w"
  by (simp add: creates_def frame_refl steps_refl grows_refl)

lemma creates_mono: "creates d suffix m w w' \<Longrightarrow> m \<le> n \<Longrightarrow> creates d suffix n w w'"
  by (auto simp: creates_def grows_def)

lemma AddReplicasLoop_creates:
  "AddReplicasLoop d writerInstance n w = (r, w') \<Longrightarrow> creates d ''reader'' n w w'"
proof (induction n arbitrary: w)
  case 0
  then show ?case by (simp add: creates_refl)
next
  case (Suc n)
  let ?k = "if InstanceType d \<noteq> [] then InstanceType d else DBInstanceClass writerInstance"
  obtain r1 w1 where c: "createReplica d ''reader'' ''docdb-autoscaler-created'' ?k w = (r1, w1)"
    by (cases "createReplica d ''reader'' ''docdb-autoscaler-created'' ?k w")
  note c1 = createReplica_creates[OF c]
  show ?case
  proof (cases r1)
    case (Ok u)
    with Suc.prems c have "AddReplicasLoop d writerInstance n w1 = (r, w')" by simp
    from creates_trans[OF c1 Suc.IH[OF this]] show ?thesis by simp
  next
    case (Err e)
    with Suc.prems c have "w' = w1" by simp
    with c1 show ?thesis by (auto intro: creates_mono)
  next
    case Panic
    with Suc.prems c have "w' = w1" by simp
    with c1 show ?thesis by (auto intro: creates_mono)
  qed
qed

lemma AddScheduledReplicasLoop_creates:
  "AddScheduledReplicasLoop d k n w = (r, w') \<Longrightarrow> creates d ''scheduler'' n w w'"
proof (induction n arbitrary: w)
  case 0
  then show ?case by (simp add: creates_refl)
next
  case (Suc n)
  obtain r1 w1 where c: "createReplica d ''scheduler'' ''docdb-autoscaler-scheduler'' k w = (r1, w1)"
    by (cases "createReplica d ''scheduler'' ''docdb-autoscaler-scheduler'' k w")
  note c1 = createReplica_creates[OF c]
  show ?case
  proof (cases r1)
    case (Ok u)
    with Suc.prems c have "AddScheduledReplicasLoop d k n w1 = (r, w')" by simp
    from creates_trans[OF c1 Suc.IH[OF this]] show ?thesis by simp
  next
    case (Err e)
    with Suc.prems c have "w' = w1" by simp
    with c1 show ?thesis by (auto intro: creates_mono)
  next
    case Panic
    with Suc.prems c have "w' = w1" by simp
    with c1 show ?thesis by (auto intro: creates_mono)
  qed
qed

lemma reads_creates:
  assumes "reads w w'" "steps isDescribe w w'"
  shows "creates d suffix 0 w w'"
  using assms reads_fields[OF assms(1)]
  by (auto simp: creates_def grows_def createCall_def intro: reads_frame steps_mono)

lemma AddReplicas_creates:
  assumes "AddReplicas d n w = (r, w')"
  shows "creates d ''reader'' (nat n) w w'"
  using assms unfolding AddReplicas_def
proof (cases rule: andThenE)
  case (ok x w1)
  from GetWriterInstance_reads[OF ok(1)] GetWriterInstance_describes[OF ok(1)]
  have "creates d ''reader'' 0 w w1" by (auto intro: reads_creates)
  from creates_trans[OF this AddReplicasLoop_creates[OF ok(2)]] show ?thesis by simp
next
  case (err e)
  from GetWriterInstance_reads[OF err(1)] GetWriterInstance_describes[OF err(1)]
  show ?thesis by (auto intro: reads_creates creates_mono)
next
  case panic
  from GetWriterInstance_reads[OF panic(1)] GetWriterInstance_describes[OF panic(1)]
  show ?thesis by (auto intro: reads_creates creates_mono)
qed

lemma AddScheduledReplicas_creates:
  assumes "AddScheduledReplicas d n w = (r, w')"
  shows "creates d ''scheduler'' (nat n) w w'"
proof (cases "InstanceType d \<noteq> []")
  case True
  with assms show ?thesis
    by (simp add: AddScheduledReplicas_def AddScheduledReplicasLoop_creates)
next
  case False
  with assms have "andThen (GetWriterInstance d) (\<lambda>writerInstance.
             AddScheduledReplicasLoop d (DBInstanceClass writerInstance) (nat n)) w = (r, w')"
    by (simp add: AddScheduledReplicas_def)
  then show ?thesis
  proof (cases rule: andThenE)
    case (ok x w1)
    from GetWriterInstance_reads[OF ok(1)] GetWriterInstance_describes[OF ok(1)]
    have "creates d ''scheduler'' 0 w w1" by (auto intro: reads_creates)
    from creates_trans[OF this AddScheduledReplicasLoop_creates[OF ok(2)]] show ?thesis by simp
  next
    case (err e)
    from GetWriterInstance_reads[OF err(1)] GetWriterInstance_describes[OF err(1)]
    show ?thesis by (auto intro: reads_creates creates_mono)
  next
    case panic
    from GetWriterInstance_reads[OF panic(1)] GetWriterInstance_describes[OF panic(1)]
    show ?thesis by (auto intro: reads_creates creates_mono)
  qed
qed

subsection \<open>Removing replicas\<close>

lemma findInstanceToRemove_reads:
  "findInstanceToRemove wid instances w = (r, w') \<Longrightarrow>
     reads w w' \<and> r \<noteq> Panic
     \<and> (\<forall>i. r = Ok (Some i) \<longrightarrow>
           i \<in> set instances \<and> DBInstanceIdentifier i \<noteq> wid
           \<and> DBInstanceStatus i = ''available''
           \<and> hasTag ''docdb-autoscaler-created'' (tagLists w (DBInstanceArn i)))"
proof (induction instances arbitrary: w)
  case Nil
  then show ?case by (auto simp: reads_refl)
next
  case (Cons x rest)
  show ?case
  proof (cases "DBInstanceIdentifier x = wid")
    case True
    with Cons.prems have "findInstanceToRemove wid rest w = (r, w')" by simp
    from Cons.IH[OF this] show ?thesis by auto
  next
    case False
    obtain r1 w1 where h: "HasAutoscalerTag x w = (r1, w1)"
      by (cases "HasAutoscalerTag x w")
    from HasAutoscalerTag_reads[OF h]
    have h1: "reads w w1" "r1 \<noteq> Panic"
      "\<forall>b. r1 = Ok b \<longrightarrow> b = hasTag ''docdb-autoscaler-created'' (tagLists w (DBInstanceArn x))"
      by auto
    from reads_fields[OF h1(1)] have tl: "tagLists w1 = tagLists w" by simp
    have continue: ?thesis if "findInstanceToRemove wid rest w1 = (r, w')"
      using Cons.IH[OF that] h1(1) tl by (auto intro: reads_trans)
    show ?thesis
    proof (cases r1)
      case (Ok tagged)
      show ?thesis
      proof (cases "DBInstanceStatus x \<noteq> ''available'' \<or> \<not> tagged")
        case True
        with Cons.prems False h Ok have "findInstanceToRemove wid rest w1 = (r, w')"
          by (auto split: if_splits)
        then show ?thesis by (rule continue)
      next
        case found: False
        with Cons.prems False h Ok have "r = Ok (Some x)" "w' = w1" by auto
        with found False h1 Ok show ?thesis by auto
      qed
    next
      case (Err e)
      with Cons.prems False h have "findInstanceToRemove wid rest w1 = (r, w')" by simp
      then show ?thesis by (rule continue)
    next
      case Panic
      with h1 show ?thesis by simp
    qed
  qed
qed

lemma isOwnedReaderI:
  assumes "writerIdentifierOf (dbClusters w) = Some wid" "i \<in> set (dbInstances w)"
    "DBInstanceIdentifier i \<noteq> wid" "DBInstanceStatus i = ''available''"
    "hasTag tagKey (tagLists w (DBInstanceArn i))"
  shows "isOwnedReader tagKey w (DBInstanceIdentifier i)"
  using assms by (auto simp: isOwnedReader_def list_ex_iff)

lemma logDryRun_eq:
  "logDryRun i w = (r, w') \<Longrightarrow>
     r = Ok () \<and> w' = w\<lparr>trace := trace w @ [(DryRunRecord i, True)]\<rparr>"
  by (auto simp: logDryRun_def)

lemma RemoveReplica_removal:
  assumes "RemoveReplica d w = (r, w')"
  shows "removal d w r w'"
  using assms unfolding RemoveReplica_def
proof (cases rule: andThenE)
  case (ok instances w1)
  from DescribeDBInstances_reads[OF ok(1)]
  have d1: "reads w w1" "instances = dbInstances w" by auto
  from ok(2) show ?thesis
  proof (cases rule: andThenE)
    case ok2: (ok wid w2)
    from GetWriterInstanceIdentifier_reads[OF ok2(1)] reads_fields[OF d1(1)]
    have d2: "reads w1 w2" "writerIdentifierOf (dbClusters w) = Some wid" by auto
    from ok2(2) show ?thesis
    proof (cases rule: andThenE)
      case ok3: (ok found w3)
      from findInstanceToRemove_reads[OF ok3(1)]
      have d3: "reads w2 w3"
        "\<forall>i. found = Some i \<longrightarrow>
           i \<in> set instances \<and> DBInstanceIdentifier i \<noteq> wid
           \<and> DBInstanceStatus i = ''available''
           \<and> hasTag ''docdb-autoscaler-created'' (tagLists w2 (DBInstanceArn i))"
        by auto
      from d1(1) d2(1) d3(1) have r3: "reads w w3" by (blast intro: reads_trans)
      from d1(1) d2(1) have "reads w w2" by (rule reads_trans)
      from reads_fields[OF this] have tl: "tagLists w2 = tagLists w" by simp
      show ?thesis
      proof (cases found)
        case None
        with ok3(2) have "r = Ok ()" "w' = w3" by (auto dest: ret_eq)
        with r3 show ?thesis unfolding removal_def by blast
      next
        case (Some i)
        with d3(2) d1(2) d2(2) tl
        have own: "isOwnedReader ''docdb-autoscaler-created'' w (DBInstanceIdentifier i)"
          by (auto intro: isOwnedReaderI)
        from Some ok3(2)
        have run: "(if DryRun d then logDryRun (DBInstanceIdentifier i) w3 = (r, w')
                    else DeleteDBInstance (DBInstanceIdentifier i) w3 = (r, w'))"
          by (simp split: if_splits)
        have "r \<noteq> Panic"
          using run DeleteDBInstance_effect logDryRun_eq by (fastforce split: if_splits)
        with r3 own run show ?thesis unfolding removal_def by blast
      qed
    next
      case (err e)
      from findInstanceToRemove_reads[OF err(1)] d1(1) d2(1) err(2)
      show ?thesis unfolding removal_def by (blast intro: reads_trans)
    next
      case panic
      from findInstanceToRemove_reads[OF panic(1)] show ?thesis by simp
    qed
  next
    case (err e)
    from GetWriterInstanceIdentifier_reads[OF err(1)] d1(1) err(2)
    show ?thesis unfolding removal_def by (blast intro: reads_trans)
  next
    case panic
    from GetWriterInstanceIdentifier_reads[OF panic(1)] show ?thesis by simp
  qed
next
  case (err e)
  from DescribeDBInstances_reads[OF err(1)] err(2)
  show ?thesis unfolding removal_def by blast
next
  case panic
  from DescribeDBInstances_reads[OF panic(1)] show ?thesis by simp
qed

lemma newEvents_append:
  assumes "steps P w w1" "steps Q w1 w2"
  shows "newEvents w w2 = newEvents w w1 @ newEvents w1 w2"
  using assms by (auto simp: steps_def newEvents_def)

lemma newEvents_self: "newEvents w w = []"
  by (simp add: newEvents_def)

lemma removeInstance_readers:
  "length (readersOf wid (removeInstance i xs)) \<le> length (readersOf wid xs)
   \<and> length (readersOf wid xs) \<le> Suc (length (readersOf wid (removeInstance i xs)))"
  by (induction xs) (auto simp: readersOf_def)

lemma removeInstance_length:
  "length (removeInstance i xs) \<le> length xs \<and> length xs \<le> Suc (length (removeInstance i xs))"
  by (induction xs) auto

lemma readerCount_same:
  "dbClusters w' = dbClusters w \<Longrightarrow> dbInstances w' = dbInstances w \<Longrightarrow>
     readerCount w' = readerCount w"
  by (simp add: readerCount_def cong: option.case_cong)

lemma readerCount_remove:
  assumes "dbClusters w' = dbClusters w" "dbInstances w' = removeInstance i (dbInstances w)"
  shows "readerCount w - 1 \<le> readerCount w' \<and> readerCount w' \<le> readerCount w"
proof (cases "writerIdentifierOf (dbClusters w)")
  case None
  with assms removeInstance_length[of i "dbInstances w"] show ?thesis
    by (simp add: readerCount_def)
next
  case (Some wid)
  with assms removeInstance_readers[of wid i "dbInstances w"] show ?thesis
    by (simp add: readerCount_def)
qed

lemma readerCount_grows:
  assumes "dbClusters w' = dbClusters w" "grows n w w'"
  shows "readerCount w \<le> readerCount w' \<and> readerCount w' \<le> readerCount w + int n"
proof -
  from assms(2) obtain new where n: "dbInstances w' = dbInstances w @ new" "length new \<le> n"
    by (auto simp: grows_def)
  have "length (readersOf wid new) \<le> n" for wid
    using n(2) by (simp add: readersOf_def le_trans[OF length_filter_le])
  moreover have "readersOf wid (dbInstances w') = readersOf wid (dbInstances w) @ readersOf wid new"
    for wid using n(1) by (simp add: readersOf_def)
  ultimately show ?thesis using n assms(1)
    by (cases "writerIdentifierOf (dbClusters w)") (auto simp: readerCount_def)
qed

lemma scheduledDelete_Cons: "scheduledDelete d rest c \<Longrightarrow> scheduledDelete d (x # rest) c"
  by (simp add: scheduledDelete_def)

lemma RemoveScheduledReplicas_removal:
  "RemoveScheduledReplicas d instances w = (r, w') \<Longrightarrow> scheduledRemoval d instances w w'"
proof (induction instances arbitrary: w)
  case Nil
  then show ?case by (simp add: scheduledRemoval_def frame_refl steps_refl)
next
  case (Cons x rest)
  have tail: "scheduledRemoval d (x # rest) w1 w2" if "scheduledRemoval d rest w1 w2" for w1 w2
    using that scheduledDelete_Cons unfolding scheduledRemoval_def
    by (blast intro: steps_mono)
  show ?case
  proof (cases "DBInstanceStatus x \<noteq> ''available''")
    case True
    with Cons.prems have "RemoveScheduledReplicas d rest w = (r, w')" by simp
    from tail[OF Cons.IH[OF this]] show ?thesis .
  next
    case avail: False
    let ?m = "if \<not> DryRun d then DeleteDBInstance (DBInstanceIdentifier x)
              else logDryRun (DBInstanceIdentifier x)"
    obtain r1 w1 where m: "?m w = (r1, w1)" by (cases "?m w")
    have first: "scheduledRemoval d (x # rest) w w1"
    proof (cases "DryRun d")
      case True
      with m have "w1 = w\<lparr>trace := trace w @ [(DryRunRecord (DBInstanceIdentifier x), True)]\<rparr>"
        by (simp add: logDryRun_def)
      then have "dbClusters w1 = dbClusters w" "dbInstances w1 = dbInstances w"
        "tagLists w1 = tagLists w" "trace w1 = trace w @ [(DryRunRecord (DBInstanceIdentifier x), True)]"
        "frame w w1"
        by (simp_all add: frame_def)
      with True readerCount_same[of w1 w] show ?thesis
        by (simp add: scheduledRemoval_def steps_def scheduledDelete_def isDryRunRecord_def)
    next
      case False
      with m have del: "DeleteDBInstance (DBInstanceIdentifier x) w = (r1, w1)" by simp
      note e = DeleteDBInstance_effect[OF del]
      from e have f: "frame w w1" by simp
      then have cl: "dbClusters w1 = dbClusters w" by (simp add: frame_def)
      from e have "steps (scheduledDelete d (x # rest)) w w1"
        using avail False by (auto simp: scheduledDelete_def intro: steps_mono)
      moreover from e cl have "readerCount w1 \<le> readerCount w"
        using readerCount_same[OF cl] readerCount_remove[OF cl] by fastforce
      ultimately show ?thesis using e False by (simp add: scheduledRemoval_def)
    qed
    show ?thesis
    proof (cases r1)
      case (Ok u)
      with Cons.prems avail m have "RemoveScheduledReplicas d rest w1 = (r, w')"
        by (simp split: if_splits)
      from tail[OF Cons.IH[OF this]] first show ?thesis
        unfolding scheduledRemoval_def
        by (auto intro: frame_trans steps_trans)
    next
      case (Err e)
      with Cons.prems avail m have "w' = w1" by (simp split: if_splits)
      with first show ?thesis by simp
    next
      case Panic
      with Cons.prems avail m have "w' = w1" by (simp split: if_splits)
      with first show ?thesis by simp
    qed
  qed
qed

lemma collectScheduledInstances_reads:
  "collectScheduledInstances instances acc w = (r, w') \<Longrightarrow>
     reads w w' \<and> r \<noteq> Panic
     \<and> (\<forall>xs. r = Ok xs \<longrightarrow>
           xs = acc @ filter (\<lambda>i. hasTag ''docdb-autoscaler-scheduler''
                                    (tagLists w (DBInstanceArn i))) instances
           \<and> list_all snd (newEvents w w'))"
proof (induction instances arbitrary: acc w)
  case Nil
  then show ?case by (auto simp: reads_refl newEvents_self)
next
  case (Cons x rest)
  obtain r1 w1 where h: "HasSchedulerTag x w = (r1, w1)" by (cases "HasSchedulerTag x w")
  note h1 = HasSchedulerTag_reads[OF h]
  from h1 have rd: "reads w w1" by simp
  from reads_fields[OF rd] have tl: "tagLists w1 = tagLists w" by simp
  show ?case
  proof (cases r1)
    case (Ok tagged)
    with Cons.prems h
    have rec: "collectScheduledInstances rest (if tagged then acc @ [x] else acc) w1 = (r, w')"
      by simp
    note ih = Cons.IH[OF rec]
    from ih rd have "reads w w'" by (blast intro: reads_trans)
    moreover from ih have "r \<noteq> Panic" by simp
    moreover have "newEvents w w' = newEvents w w1 @ newEvents w1 w'"
      using rd ih by (auto simp: reads_def intro: newEvents_append)
    ultimately show ?thesis using ih h1 Ok tl by auto
  next
    case (Err e)
    with Cons.prems h have "r = Err e" "w' = w1" by auto
    with rd show ?thesis by simp
  next
    case Panic
    with h1 show ?thesis by simp
  qed
qed

lemma notification_reads:
  assumes "ignoreError (request c (\<lambda>w. ()) (\<lambda>w. w)) w = (r, w')"
  shows "r = Ok () \<and> onlyTrace w w' \<and> steps (\<lambda>x. x = c) w w'
       \<and> (\<exists>ok. newEvents w w' = [(c, ok)])"
proof -
  from ignoreError_eq[OF assms] obtain r1 where
    q: "request c (\<lambda>w. ()) (\<lambda>w. w) w = (r1, w')" and p: "r = Panic \<longleftrightarrow> r1 = Panic"
    "r \<noteq> Panic \<longrightarrow> r = Ok ()" by blast
  from request_effect[OF q] p show ?thesis
    by (auto simp: onlyTrace_def newEvents_def)
qed

subsection \<open>The shape of a reconciliation\<close>

text \<open>
  A reconciliation of the metric mode reads and then does nothing, adds replicas or
  removes one; a reconciliation of the schedule mode reads and then fails, does nothing,
  removes the schedule-owned replicas or adds replicas.
\<close>

lemma isDescribe_isRead: "isDescribe c \<Longrightarrow> isRead c"
  by (auto simp: isDescribe_def isRead_def)

lemma engineCallAt_frame:
  assumes "clock w1 = clock w" "dbClusters w1 = dbClusters w" "dbInstances w1 = dbInstances w"
    "tagLists w1 = tagLists w"
  shows "engineCallAt d w1 = engineCallAt d w"
  by (rule ext)
     (simp add: engineCallAt_def generatedIdentifier_def isOwnedReader_def assms
           split: call.splits cong: option.case_cong)

lemma reads_effects: "reads w w' \<Longrightarrow> effects d w w'"
  using reads_fields[of w w']
  by (auto simp: effects_def engineCallAt_def intro: reads_frame reads_steps)

lemma creates_effects:
  assumes "creates d (modeSuffix d) n w w'"
  shows "effects d w w'"
proof -
  have "engineCallAt d w c" if "createCall d (modeSuffix d) w c" for c
    using that
    by (auto simp: createCall_def engineCallAt_def isDescribe_isRead split: if_splits call.splits)
  with assms show ?thesis
    by (auto simp: creates_def effects_def intro: steps_mono)
qed

lemma removal_effects:
  assumes "removal d w r w'" "\<not> ScheduledScaling d"
  shows "effects d w w' \<and> tagLists w' = tagLists w
       \<and> readerCount w - 1 \<le> readerCount w' \<and> readerCount w' \<le> readerCount w
       \<and> length (deletions w w') \<le> 1"
proof -
  from assms(1) obtain w1 where w1: "reads w w1"
    and alt: "w' = w1 \<or> (\<exists>i. isOwnedReader ''docdb-autoscaler-created'' w i
                  \<and> (if DryRun d then logDryRun i w1 = (r, w')
                      else DeleteDBInstance i w1 = (r, w')))"
    unfolding removal_def by blast
  note f1 = reads_fields[OF w1]
  from w1 have e1: "effects d w w1" by (rule reads_effects)
  have rc1: "readerCount w1 = readerCount w" using f1 readerCount_same[of w1 w] by simp
  have nd1: "deletions w w1 = []"
    using w1 by (auto simp: deletions_def reads_def steps_def newEvents_def isRead_def isDelete_def
                     filter_empty_conv split: call.splits)
  from alt show ?thesis
  proof
    assume "w' = w1"
    with e1 f1 rc1 nd1 show ?thesis by simp
  next
    assume "\<exists>i. isOwnedReader ''docdb-autoscaler-created'' w i
                  \<and> (if DryRun d then logDryRun i w1 = (r, w')
                      else DeleteDBInstance i w1 = (r, w'))"
    then obtain i where own: "isOwnedReader ''docdb-autoscaler-created'' w i"
      and run: "if DryRun d then logDryRun i w1 = (r, w') else DeleteDBInstance i w1 = (r, w')"
      by blast
    show ?thesis
    proof (cases "DryRun d")
      case True
      with run have w': "w' = w1\<lparr>trace := trace w1 @ [(DryRunRecord i, True)]\<rparr>"
        by (simp add: logDryRun_def)
      then have s: "steps (engineCallAt d w) w1 w'" "frame w1 w'"
        "dbInstances w' = dbInstances w1" "tagLists w' = tagLists w1"
        "dbClusters w' = dbClusters w1" "newEvents w1 w' = [(DryRunRecord i, True)]"
        using True
        by (simp_all add: steps_def engineCallAt_def isDryRunRecord_def frame_def newEvents_def)
      from e1 s have "effects d w w'"
        by (auto simp: effects_def intro: frame_trans steps_trans)
      moreover have "readerCount w' = readerCount w"
        using s f1 readerCount_same[of w' w] by simp
      moreover have "deletions w w' = []"
        using nd1 s(6) newEvents_append[of isRead w w1 _ w'] w1 s(1)
        by (simp add: deletions_def reads_def isDelete_def)
      ultimately show ?thesis using s f1 by simp
    next
      case False
      with run have del: "DeleteDBInstance i w1 = (r, w')" by simp
      note e = DeleteDBInstance_effect[OF del]
      have "engineCallAt d w (DeleteDBInstanceCall i)"
        using own False assms(2) by (simp add: engineCallAt_def modeTagKey_def)
      with e have s: "steps (engineCallAt d w) w1 w'" by (auto intro: steps_mono)
      from e have cl: "dbClusters w' = dbClusters w1" by (simp add: frame_def)
      from e1 s e False have "effects d w w'"
        by (auto simp: effects_def intro: frame_trans steps_trans)
      moreover have "readerCount w1 - 1 \<le> readerCount w' \<and> readerCount w' \<le> readerCount w1"
        using e readerCount_same[OF cl] readerCount_remove[OF cl] by fastforce
      moreover have "length (newEvents w1 w') = 1" using e by auto
      then have "length (deletions w w') \<le> 1"
        using nd1 newEvents_append[of isRead w w1 _ w'] w1 s
        by (simp add: deletions_def reads_def le_trans[OF length_filter_le])
      ultimately show ?thesis using e f1 rc1 by simp
    qed
  qed
qed

lemma thenNotify:
  assumes "andThen m (\<lambda>u. ignoreError (request c (\<lambda>w. ()) (\<lambda>w. w))) w = (r, w')"
  obtains r3 w3 where "m w = (r3, w3)"
    "r3 = Ok () \<and> r = Ok () \<and> notified c w3 w' \<or> r3 \<noteq> Ok () \<and> r = r3 \<and> w' = w3"
  using assms
proof (cases rule: andThenE)
  case (ok x w1)
  from notification_reads[OF ok(2)] have "r = Ok ()" "notified c w1 w'"
    by (auto simp: notified_def)
  with ok(1) that[of "Ok ()" w1] show ?thesis by simp
next
  case (err e)
  with that[of "Err e" w'] show ?thesis by simp
next
  case panic
  with that[of Panic w'] show ?thesis by simp
qed

lemma GetCurrentCapacity_readerCount:
  assumes "GetCurrentCapacity d w = (Ok c, w')"
  shows "c = readerCount w"
  using GetCurrentCapacity_reads[OF assms] by (auto simp: readerCount_def)

lemma ExecuteMetricBasedScalingAction_cases:
  assumes "ExecuteMetricBasedScalingAction d w = (r, w')"
  obtains (quiet) "reads w w'" "r \<noteq> Panic"
      "(\<exists>e. fst (GetCurrentMetricValue d w) = Err e)
       \<or> (\<exists>m w1 e. GetCurrentMetricValue d w = (Ok m, w1) \<and> fst (GetCurrentCapacity d w1) = Err e)
       \<or> (\<exists>m. fst (GetCurrentMetricValue d w) = Ok m
                \<and> CalculateDesiredCapacity d m (readerCount w) = readerCount w)"
  | (scaleOut) m w2 r3 w3 where "reads w w2"
      "readerCount w < CalculateDesiredCapacity d m (readerCount w)"
      "AddReplicas d (CalculateDesiredCapacity d m (readerCount w) - readerCount w) w2 = (r3, w3)"
      "r3 = Ok () \<and> r = Ok ()
         \<and> notified (ScaleOutNotificationCall (ClusterID d)
               (CalculateDesiredCapacity d m (readerCount w) - readerCount w)) w3 w'
       \<or> r3 \<noteq> Ok () \<and> r = r3 \<and> w' = w3"
      "fst (GetCurrentMetricValue d w) = Ok m"
  | (scaleIn) m w2 r3 w3 where "reads w w2"
      "CalculateDesiredCapacity d m (readerCount w) < readerCount w"
      "RemoveReplica d w2 = (r3, w3)"
      "r3 = Ok () \<and> r = Ok () \<and> notified (ScaleInNotificationCall (ClusterID d) 1) w3 w'
       \<or> r3 \<noteq> Ok () \<and> r = r3 \<and> w' = w3"
      "fst (GetCurrentMetricValue d w) = Ok m"
  using assms unfolding ExecuteMetricBasedScalingAction_def
proof (cases rule: andThenE)
  case (ok m w1)
  from GetCurrentMetricValue_reads[OF ok(1)] have r1: "reads w w1" by simp
  from ok(1) have gm: "fst (GetCurrentMetricValue d w) = Ok m" by simp
  from ok(2) show ?thesis
  proof (cases rule: andThenE)
    case ok2: (ok c w2)
    from GetCurrentCapacity_reads[OF ok2(1)] have r2: "reads w1 w2" by simp
    from r1 r2 have r12: "reads w w2" by (rule reads_trans)
    have "c = readerCount w1" using ok2(1) by (rule GetCurrentCapacity_readerCount)
    with reads_fields[OF r1] readerCount_same[of w1 w] have c: "c = readerCount w" by simp
    let ?desired = "CalculateDesiredCapacity d m (readerCount w)"
    consider (grow) "?desired > readerCount w" | (shrink) "?desired < readerCount w"
      | (equal) "?desired = readerCount w" by linarith
    then show ?thesis
    proof cases
      case grow
      with ok2(2) c
      have "andThen (AddReplicas d (?desired - readerCount w))
              (\<lambda>u. ignoreError (request (ScaleOutNotificationCall (ClusterID d)
                     (?desired - readerCount w)) (\<lambda>w. ()) (\<lambda>w. w))) w2 = (r, w')"
        by (simp add: Let_def SendScaleOutNotification_def)
      then show ?thesis
        using r12 grow gm by (elim thenNotify) (rule scaleOut, assumption+)
    next
      case shrink
      with ok2(2) c
      have "andThen (RemoveReplica d)
              (\<lambda>u. ignoreError (request (ScaleInNotificationCall (ClusterID d) 1)
                     (\<lambda>w. ()) (\<lambda>w. w))) w2 = (r, w')"
        by (simp add: Let_def SendScaleInNotification_def)
      then show ?thesis
        using r12 shrink gm by (elim thenNotify) (rule scaleIn, assumption+)
    next
      case equal
      with ok2(2) c have "r = Ok ()" "w' = w2" by (auto simp: Let_def dest: ret_eq)
      with r12 equal gm show ?thesis by (intro quiet) auto
    qed
  next
    case (err e)
    from GetCurrentCapacity_reads[OF err(1)] r1 err(2) have "reads w w'" "r \<noteq> Panic"
      by (auto intro: reads_trans)
    moreover from ok(1) err(1)
    have "\<exists>m w1 e. GetCurrentMetricValue d w = (Ok m, w1) \<and> fst (GetCurrentCapacity d w1) = Err e"
      by auto
    ultimately show ?thesis by (intro quiet) auto
  next
    case panic
    from GetCurrentCapacity_reads[OF panic(1)] show ?thesis by simp
  qed
next
  case (err e)
  from GetCurrentMetricValue_reads[OF err(1)] err show ?thesis by (intro quiet) auto
next
  case panic
  from GetCurrentMetricValue_reads[OF panic(1)] show ?thesis by simp
qed

lemma noFailedTagRead_describes: "steps isDescribe w w' \<Longrightarrow> noFailedTagRead w w'"
  by (fastforce simp: noFailedTagRead_def steps_def newEvents_def list_all_iff isDescribe_def
        isTagRead_def)

lemma noFailedTagRead_append:
  assumes "steps P w w1" "steps Q w1 w2" "noFailedTagRead w w1" "noFailedTagRead w1 w2"
  shows "noFailedTagRead w w2"
  using assms(3,4) newEvents_append[OF assms(1,2)] by (simp add: noFailedTagRead_def)

lemma ExecuteScheduledScalingAction_cases:
  assumes "ExecuteScheduledScalingAction d w = (r, w')"
  obtains (failed) e where "r = Err e" "reads w w'"
  | (unchanged) wid where "writerIdentifierOf (dbClusters w) = Some wid"
      "scheduledOf wid w = []" "scheduledReplicasToAdd d (readerCount w) = None"
      "r = Ok ()" "reads w w'" "noFailedTagRead w w'"
  | (scaleIn) wid w2 r3 w3 where "writerIdentifierOf (dbClusters w) = Some wid"
      "scheduledOf wid w \<noteq> []" "reads w w2" "noFailedTagRead w w2"
      "RemoveScheduledReplicas d (scheduledOf wid w) w2 = (r3, w3)"
      "r3 = Ok () \<and> r = Ok ()
         \<and> notified (ScaleInNotificationCall (ClusterID d) (int (length (scheduledOf wid w)))) w3 w'
       \<or> r3 \<noteq> Ok () \<and> r = r3 \<and> w' = w3"
  | (scaleOut) wid k w2 r3 w3 where "writerIdentifierOf (dbClusters w) = Some wid"
      "scheduledOf wid w = []" "scheduledReplicasToAdd d (readerCount w) = Some k"
      "reads w w2" "noFailedTagRead w w2"
      "AddScheduledReplicas d k w2 = (r3, w3)"
      "r3 = Ok () \<and> r = Ok () \<and> notified (ScaleOutNotificationCall (ClusterID d) k) w3 w'
       \<or> r3 \<noteq> Ok () \<and> r = r3 \<and> w' = w3"
  using assms unfolding ExecuteScheduledScalingAction_def
proof (cases rule: andThenE)
  case (ok readers w1)
  from GetReaderInstances_reads[OF ok(1)] obtain wid where
    r1: "reads w w1" and wid: "writerIdentifierOf (dbClusters w) = Some wid"
    and readers: "readers = readersOf wid (dbInstances w)" by auto
  note d1 = GetReaderInstances_describes[OF ok(1)]
  have len: "int (length readers) = readerCount w"
    using wid readers by (simp add: readerCount_def)
  from ok(2) show ?thesis
  proof (cases rule: andThenE)
    case ok2: (ok scheduled w2)
    from collectScheduledInstances_reads[OF ok2(1)] reads_fields[OF r1] readers
    have r2: "reads w1 w2" and sch: "scheduled = scheduledOf wid w"
      and allok: "list_all snd (newEvents w1 w2)"
      by (auto simp: scheduledOf_def)
    from r1 r2 have r12: "reads w w2" by (rule reads_trans)
    have "noFailedTagRead w1 w2"
      using allok by (auto simp: noFailedTagRead_def list_all_iff)
    with d1 r2 have nf: "noFailedTagRead w w2"
      by (auto simp: reads_def intro: noFailedTagRead_append noFailedTagRead_describes)
    show ?thesis
    proof (cases "scheduled = []")
      case False
      with ok2(2)
      have "andThen (RemoveScheduledReplicas d scheduled)
              (\<lambda>u. ignoreError (request (ScaleInNotificationCall (ClusterID d)
                      (int (length scheduled))) (\<lambda>w. ()) (\<lambda>w. w))) w2 = (r, w')"
        by (simp add: Let_def SendScaleInNotification_def)
      then show ?thesis
        using wid False r12 nf unfolding sch
        by (elim thenNotify) (rule scaleIn, assumption+)
    next
      case True
      show ?thesis
      proof (cases "scheduledReplicasToAdd d (readerCount w)")
        case None
        with ok2(2) True len have "r = Ok ()" "w' = w2"
          by (auto simp: Let_def scheduledReplicasToAdd_def dest: ret_eq split: if_splits)
        with wid True sch None r12 nf show ?thesis by (auto intro: unchanged)
      next
        case (Some k)
        with ok2(2) True len
        have "andThen (AddScheduledReplicas d k)
                (\<lambda>u. ignoreError (request (ScaleOutNotificationCall (ClusterID d) k)
                        (\<lambda>w. ()) (\<lambda>w. w))) w2 = (r, w')"
          by (auto simp: Let_def scheduledReplicasToAdd_def SendScaleOutNotification_def
                   split: if_splits)
        then show ?thesis
          using wid True sch Some r12 nf
          by (elim thenNotify) (rule scaleOut[of wid k], simp_all)
      qed
    qed
  next
    case (err e)
    from collectScheduledInstances_reads[OF err(1)] r1 err(2) show ?thesis
      by (auto intro: failed reads_trans)
  next
    case panic
    from collectScheduledInstances_reads[OF panic(1)] show ?thesis by simp
  qed
next
  case (err e)
  from GetReaderInstances_reads[OF err(1)] err(2) show ?thesis by (auto intro: failed)
next
  case panic
  from GetReaderInstances_reads[OF panic(1)] show ?thesis by simp
qed

lemma effects_after_reads:
  assumes "reads w w2" "effects d w2 w3"
  shows "effects d w w3"
proof -
  note f = reads_fields[OF assms(1)]
  from f have "engineCallAt d w2 = engineCallAt d w" by (intro engineCallAt_frame) simp_all
  with assms(2) have "steps (engineCallAt d w) w2 w3" by (simp add: effects_def)
  moreover from assms(1) have "steps (engineCallAt d w) w w2"
    by (rule reads_steps) (simp add: engineCallAt_def)
  ultimately have "steps (engineCallAt d w) w w3" by (blast intro: steps_trans)
  with assms f show ?thesis
    by (auto simp: effects_def intro: frame_trans reads_frame)
qed

lemma notified_fields:
  assumes "notified c w w'"
  shows "dbInstances w' = dbInstances w \<and> dbClusters w' = dbClusters w
       \<and> tagLists w' = tagLists w \<and> frame w w' \<and> readerCount w' = readerCount w"
proof -
  from assms have "onlyTrace w w'" by (simp add: notified_def)
  from onlyTrace_fields[OF this] readerCount_same[of w' w] show ?thesis
    by (simp add: frame_def)
qed

lemma effects_notified:
  assumes "effects d w w3" "notified c w3 w'" "isScaleNotification c"
  shows "effects d w w'"
proof -
  from assms(2,3) have "steps (engineCallAt d w) w3 w'"
    by (auto simp: notified_def engineCallAt_def intro: steps_mono)
  with assms(1) notified_fields[OF assms(2)] show ?thesis
    by (auto simp: effects_def intro: frame_trans steps_trans)
qed

lemma effects_then_notified:
  assumes "effects d w w3"
    "r3 = Ok () \<and> r = Ok () \<and> notified c w3 w' \<or> r3 \<noteq> Ok () \<and> r = r3 \<and> w' = w3"
    "isScaleNotification c"
  shows "effects d w w'"
  using assms effects_notified by blast

lemma scheduledRemoval_effects:
  assumes "scheduledRemoval d (scheduledOf wid w) w w3" "ScheduledScaling d"
    "writerIdentifierOf (dbClusters w) = Some wid"
  shows "effects d w w3"
proof -
  have "engineCallAt d w c" if "scheduledDelete d (scheduledOf wid w) c" for c
  proof (cases "DryRun d")
    case True
    with that show ?thesis by (simp add: scheduledDelete_def engineCallAt_def)
  next
    case False
    with that obtain i where i: "i \<in> set (scheduledOf wid w)"
      "DBInstanceStatus i = ''available''" "c = DeleteDBInstanceCall (DBInstanceIdentifier i)"
      by (auto simp: scheduledDelete_def list_ex_iff)
    from i(1) have "i \<in> set (dbInstances w)" "DBInstanceIdentifier i \<noteq> wid"
      "hasTag ''docdb-autoscaler-scheduler'' (tagLists w (DBInstanceArn i))"
      by (auto simp: scheduledOf_def readersOf_def)
    with assms(3) i(2)
    have "isOwnedReader ''docdb-autoscaler-scheduler'' w (DBInstanceIdentifier i)"
      by (auto intro: isOwnedReaderI)
    with False i(3) assms(2) show ?thesis
      by (simp add: engineCallAt_def modeTagKey_def)
  qed
  with assms(1) show ?thesis
    by (auto simp: scheduledRemoval_def effects_def intro: steps_mono)
qed

lemma ExecuteScalingAction_effects:
  assumes "ExecuteScalingAction d w = (r, w')"
  shows "effects d w w'"
proof (cases "ScheduledScaling d")
  case True
  with assms have "ExecuteScheduledScalingAction d w = (r, w')"
    by (simp add: ExecuteScalingAction_def)
  then show ?thesis
  proof (cases rule: ExecuteScheduledScalingAction_cases)
    case (failed e)
    then show ?thesis by (simp add: reads_effects)
  next
    case (unchanged wid)
    then show ?thesis by (simp add: reads_effects)
  next
    case (scaleIn wid w2 r3 w3)
    note f = reads_fields[OF scaleIn(3)]
    from f have "scheduledOf wid w2 = scheduledOf wid w" by (simp add: scheduledOf_def)
    with RemoveScheduledReplicas_removal[OF scaleIn(5)]
    have "scheduledRemoval d (scheduledOf wid w2) w2 w3" by simp
    moreover from f scaleIn(1) have "writerIdentifierOf (dbClusters w2) = Some wid" by simp
    ultimately have "effects d w2 w3" using True by (blast intro: scheduledRemoval_effects)
    with scaleIn(3) have "effects d w w3" by (rule effects_after_reads)
    from this scaleIn(6) show ?thesis
      by (rule effects_then_notified) (simp add: isScaleNotification_def)
  next
    case (scaleOut wid k w2 r3 w3)
    from AddScheduledReplicas_creates[OF scaleOut(6)] True
    have "effects d w2 w3" by (auto simp: modeSuffix_def intro: creates_effects)
    with scaleOut(4) have "effects d w w3" by (rule effects_after_reads)
    from this scaleOut(7) show ?thesis
      by (rule effects_then_notified) (simp add: isScaleNotification_def)
  qed
next
  case False
  with assms have "ExecuteMetricBasedScalingAction d w = (r, w')"
    by (simp add: ExecuteScalingAction_def)
  then show ?thesis
  proof (cases rule: ExecuteMetricBasedScalingAction_cases)
    case quiet
    then show ?thesis by (simp add: reads_effects)
  next
    case (scaleOut m w2 r3 w3)
    from AddReplicas_creates[OF scaleOut(3)] False
    have "effects d w2 w3" by (auto simp: modeSuffix_def intro: creates_effects)
    with scaleOut(1) have "effects d w w3" by (rule effects_after_reads)
    from this scaleOut(4) show ?thesis
      by (rule effects_then_notified) (simp add: isScaleNotification_def)
  next
    case (scaleIn m w2 r3 w3)
    from removal_effects[OF RemoveReplica_removal[OF scaleIn(3)] False]
    have "effects d w2 w3" by simp
    with scaleIn(1) have "effects d w w3" by (rule effects_after_reads)
    from this scaleIn(4) show ?thesis
      by (rule effects_then_notified) (simp add: isScaleNotification_def)
  qed
qed

lemma creates_readerCount:
  assumes "creates d s n w w'"
  shows "readerCount w \<le> readerCount w' \<and> readerCount w' \<le> readerCount w + int n"
proof -
  from assms have "dbClusters w' = dbClusters w" "grows n w w'"
    by (simp_all add: creates_def frame_def)
  then show ?thesis by (rule readerCount_grows)
qed

lemma reads_readerCount: "reads w w' \<Longrightarrow> readerCount w' = readerCount w"
  using reads_fields[of w w'] readerCount_same[of w' w] by simp

subsection \<open>Where no call fails\<close>

lemma nofaults_reads: "reads w w' \<Longrightarrow> nofaults w \<Longrightarrow> nofaults w'"
  using reads_fields[of w w'] by (simp add: nofaults_def)

lemma request_ok:
  assumes "nofaults w"
  shows "request c answer effect w
       = (Ok (answer (w\<lparr>trace := trace w @ [(c, True)]\<rparr>)),
          effect (w\<lparr>trace := trace w @ [(c, True)]\<rparr>))"
  using assms by (simp add: request_def nofaults_def Let_def)

lemma GetWriterInstanceIdentifier_ok:
  assumes "nofaults w" "writerIdentifierOf (dbClusters w) = Some wid"
  shows "\<exists>w1. GetWriterInstanceIdentifier d w = (Ok wid, w1)"
  using assms(2)
  by (auto simp: GetWriterInstanceIdentifier_def DescribeDBClusters_def request_ok[OF assms(1)]
        andThen_def ret_def writerIdentifierOf_def split: list.splits option.splits)

lemma GetCurrentCapacity_ok:
  assumes "nofaults w" "writerIdentifierOf (dbClusters w) = Some wid"
  shows "\<exists>c w1. GetCurrentCapacity d w = (Ok c, w1)"
proof -
  let ?w1 = "w\<lparr>trace := trace w @ [(DescribeDBInstancesCall, True)]\<rparr>"
  have d: "DescribeDBInstances w = (Ok (dbInstances ?w1), ?w1)"
    by (simp add: DescribeDBInstances_def request_ok[OF assms(1)])
  have "nofaults ?w1" "writerIdentifierOf (dbClusters ?w1) = Some wid"
    using assms by (simp_all add: nofaults_def)
  from GetWriterInstanceIdentifier_ok[OF this, of d] obtain w2 where
    "GetWriterInstanceIdentifier d ?w1 = (Ok wid, w2)" by blast
  with d show ?thesis
    by (simp add: GetCurrentCapacity_def GetReaderInstances_def andThen_def ret_def)
qed

lemma findInstanceToRemove_ok:
  assumes "nofaults w"
    "\<exists>i \<in> set instances. DBInstanceIdentifier i \<noteq> wid \<and> DBInstanceStatus i = ''available''
        \<and> hasTag ''docdb-autoscaler-created'' (tagLists w (DBInstanceArn i))"
  shows "\<exists>j w1. findInstanceToRemove wid instances w = (Ok (Some j), w1)"
  using assms
proof (induction instances arbitrary: w)
  case Nil
  then show ?case by simp
next
  case (Cons x rest)
  show ?case
  proof (cases "DBInstanceIdentifier x = wid")
    case True
    with Cons.prems(2) have "\<exists>i \<in> set rest. DBInstanceIdentifier i \<noteq> wid
        \<and> DBInstanceStatus i = ''available''
        \<and> hasTag ''docdb-autoscaler-created'' (tagLists w (DBInstanceArn i))" by auto
    from Cons.IH[OF Cons.prems(1) this] True show ?thesis by simp
  next
    case False
    let ?w1 = "w\<lparr>trace := trace w @ [(ListTagsForResourceCall (DBInstanceArn x), True)]\<rparr>"
    let ?tagged = "hasTag ''docdb-autoscaler-created'' (tagLists w (DBInstanceArn x))"
    have h: "HasAutoscalerTag x w = (Ok ?tagged, ?w1)"
      by (simp add: HasAutoscalerTag_def ListTagsForResource_def request_ok[OF Cons.prems(1)]
            andThen_def ret_def)
    show ?thesis
    proof (cases "DBInstanceStatus x = ''available'' \<and> ?tagged")
      case True
      with False h show ?thesis by simp
    next
      case no: False
      with Cons.prems(2) have "\<exists>i \<in> set rest. DBInstanceIdentifier i \<noteq> wid
        \<and> DBInstanceStatus i = ''available''
        \<and> hasTag ''docdb-autoscaler-created'' (tagLists ?w1 (DBInstanceArn i))" by auto
      moreover have "nofaults ?w1" using Cons.prems(1) by (simp add: nofaults_def)
      ultimately obtain j w2 where "findInstanceToRemove wid rest ?w1 = (Ok (Some j), w2)"
        using Cons.IH by blast
      with False h no show ?thesis by auto
    qed
  qed
qed

lemma isOwnedReaderE:
  assumes "isOwnedReader tagKey w identifier"
  obtains wid i where "writerIdentifierOf (dbClusters w) = Some wid" "identifier \<noteq> wid"
    "i \<in> set (dbInstances w)" "DBInstanceIdentifier i = identifier"
    "DBInstanceStatus i = ''available''" "hasTag tagKey (tagLists w (DBInstanceArn i))"
  using assms by (auto simp: isOwnedReader_def list_ex_iff split: option.splits)

lemma RemoveReplica_ok:
  assumes "nofaults w" "\<not> DryRun d" "isOwnedReader ''docdb-autoscaler-created'' w i0"
    "RemoveReplica d w = (r, w')"
  shows "r = Ok () \<and> (\<exists>j w1. isOwnedReader ''docdb-autoscaler-created'' w j \<and> reads w w1
            \<and> DeleteDBInstance j w1 = (Ok (), w')
            \<and> dbInstances w' = removeInstance j (dbInstances w))"
proof -
  from assms(3) obtain wid i where wid: "writerIdentifierOf (dbClusters w) = Some wid"
    and i: "i \<in> set (dbInstances w)" "DBInstanceIdentifier i \<noteq> wid"
      "DBInstanceStatus i = ''available''"
      "hasTag ''docdb-autoscaler-created'' (tagLists w (DBInstanceArn i))"
    by (auto elim!: isOwnedReaderE)
  let ?w1 = "w\<lparr>trace := trace w @ [(DescribeDBInstancesCall, True)]\<rparr>"
  have d: "DescribeDBInstances w = (Ok (dbInstances w), ?w1)"
    by (simp add: DescribeDBInstances_def request_ok[OF assms(1)])
  from DescribeDBInstances_reads[OF d] have r1: "reads w ?w1" by simp
  have n1: "nofaults ?w1" "writerIdentifierOf (dbClusters ?w1) = Some wid"
    using assms(1) wid by (simp_all add: nofaults_def)
  from GetWriterInstanceIdentifier_ok[OF n1, of d] obtain w2 where
    g: "GetWriterInstanceIdentifier d ?w1 = (Ok wid, w2)" by blast
  from GetWriterInstanceIdentifier_reads[OF g] have r2: "reads ?w1 w2" by simp
  from r1 r2 have r12: "reads w w2" by (rule reads_trans)
  note f2 = reads_fields[OF r12]
  have n2: "nofaults w2" using r12 assms(1) by (rule nofaults_reads)
  from i f2 have "\<exists>i \<in> set (dbInstances w). DBInstanceIdentifier i \<noteq> wid
      \<and> DBInstanceStatus i = ''available''
      \<and> hasTag ''docdb-autoscaler-created'' (tagLists w2 (DBInstanceArn i))" by auto
  from findInstanceToRemove_ok[OF n2 this] obtain j w3 where
    fi: "findInstanceToRemove wid (dbInstances w) w2 = (Ok (Some j), w3)" by blast
  from findInstanceToRemove_reads[OF fi] f2
  have r3: "reads w2 w3" and j: "j \<in> set (dbInstances w)" "DBInstanceIdentifier j \<noteq> wid"
    "DBInstanceStatus j = ''available''"
    "hasTag ''docdb-autoscaler-created'' (tagLists w (DBInstanceArn j))" by auto
  from r12 r3 have r13: "reads w w3" by (rule reads_trans)
  have n3: "nofaults w3" using r13 assms(1) by (rule nofaults_reads)
  from wid j have own: "isOwnedReader ''docdb-autoscaler-created'' w (DBInstanceIdentifier j)"
    by (rule isOwnedReaderI)
  from assms(4) d g fi assms(2)
  have del: "DeleteDBInstance (DBInstanceIdentifier j) w3 = (r, w')"
    by (simp add: RemoveReplica_def andThen_def)
  then have "r = Ok ()"
    "dbInstances w' = removeInstance (DBInstanceIdentifier j) (dbInstances w3)"
    by (auto simp: DeleteDBInstance_def request_ok[OF n3])
  with reads_fields[OF r13] del own r13 show ?thesis by auto
qed

lemma deletions_append:
  assumes "steps P w w1" "steps Q w1 w2"
  shows "deletions w w2 = deletions w w1 @ deletions w1 w2"
  using newEvents_append[OF assms] by (simp add: deletions_def)

lemma reads_deletions: "reads w w' \<Longrightarrow> deletions w w' = []"
  by (auto simp: deletions_def reads_def steps_def newEvents_def isRead_def isDelete_def
        filter_empty_conv split: call.splits)

lemma notified_deletions: "notified c w w' \<Longrightarrow> \<not> isDelete c \<Longrightarrow> deletions w w' = []"
  by (auto simp: deletions_def notified_def)

lemma isOwnedReader_frame:
  assumes "dbClusters w1 = dbClusters w" "dbInstances w1 = dbInstances w"
    "tagLists w1 = tagLists w"
  shows "isOwnedReader k w1 i = isOwnedReader k w i"
  by (simp add: isOwnedReader_def assms cong: option.case_cong)

lemma removal_outcome:
  assumes "removal d w r w'"
  shows "length (deletions w w') \<le> 1
       \<and> list_all (\<lambda>e. \<exists>i. fst e = DeleteDBInstanceCall i
                         \<and> isOwnedReader ''docdb-autoscaler-created'' w i) (deletions w w')
       \<and> steps (\<lambda>c. True) w w'
       \<and> (dbInstances w' = dbInstances w
          \<or> (\<exists>i. \<not> DryRun d \<and> isOwnedReader ''docdb-autoscaler-created'' w i \<and> r = Ok ()
                \<and> deletions w w' = [(DeleteDBInstanceCall i, True)]
                \<and> dbInstances w' = removeInstance i (dbInstances w)))"
proof -
  from assms obtain w1 where w1: "reads w w1"
    and alt: "w' = w1 \<or> (\<exists>i. isOwnedReader ''docdb-autoscaler-created'' w i
                  \<and> (if DryRun d then logDryRun i w1 = (r, w')
                      else DeleteDBInstance i w1 = (r, w')))"
    unfolding removal_def by blast
  note f1 = reads_fields[OF w1]
  note nd1 = reads_deletions[OF w1]
  from w1 have s1: "steps (\<lambda>c. True) w w1" by (auto simp: reads_def intro: steps_mono)
  from alt show ?thesis
  proof
    assume "w' = w1"
    with f1 nd1 s1 show ?thesis by simp
  next
    assume "\<exists>i. isOwnedReader ''docdb-autoscaler-created'' w i
                  \<and> (if DryRun d then logDryRun i w1 = (r, w')
                      else DeleteDBInstance i w1 = (r, w'))"
    then obtain i where own: "isOwnedReader ''docdb-autoscaler-created'' w i"
      and run: "if DryRun d then logDryRun i w1 = (r, w') else DeleteDBInstance i w1 = (r, w')"
      by blast
    show ?thesis
    proof (cases "DryRun d")
      case True
      with run have w': "w' = w1\<lparr>trace := trace w1 @ [(DryRunRecord i, True)]\<rparr>"
        by (simp add: logDryRun_def)
      then have s: "steps (\<lambda>c. True) w1 w'" "dbInstances w' = dbInstances w1"
        "deletions w1 w' = []"
        by (simp_all add: steps_def deletions_def newEvents_def isDelete_def)
      with deletions_append[OF s1 s(1)] nd1 f1 s1 show ?thesis
        by (auto intro: steps_trans)
    next
      case False
      with run have del: "DeleteDBInstance i w1 = (r, w')" by simp
      note e = DeleteDBInstance_effect[OF del]
      from e have s: "steps (\<lambda>c. True) w1 w'" by (auto intro: steps_mono)
      from e have dl: "(\<exists>ok. deletions w1 w' = [(DeleteDBInstanceCall i, ok)])"
        "r = Ok () \<longrightarrow> deletions w1 w' = [(DeleteDBInstanceCall i, True)]"
        by (auto simp: deletions_def isDelete_def)
      from e have inv: "dbInstances w' = dbInstances w1
            \<or> r = Ok () \<and> dbInstances w' = removeInstance i (dbInstances w1)" by simp
      from deletions_append[OF s1 s] nd1 have eq: "deletions w w' = deletions w1 w'" by simp
      from s1 s have "steps (\<lambda>c. True) w w'" by (rule steps_trans)
      with eq dl inv own False f1 show ?thesis by auto
    qed
  qed
qed

section \<open>The capacity calculator\<close>

lemma truncateToInt_of_int: "truncateToInt (real_of_int k) = k"
  by (simp add: truncateToInt_def)

lemma CalculateDesiredCapacity_clamped:
  "CalculateDesiredCapacity d metric current =
     (let r = roundDirected (metric / TargetValue d * real_of_int current) current
      in if r < MinCapacity d then MinCapacity d
         else if r > MaxCapacity d then MaxCapacity d else r)"
  by (simp add: CalculateDesiredCapacity_def roundDirected_def Let_def truncateToInt_of_int)

lemma CalculateDesiredCapacity_bounds:
  "MinCapacity d \<le> MaxCapacity d \<Longrightarrow>
     MinCapacity d \<le> CalculateDesiredCapacity d metric current
     \<and> CalculateDesiredCapacity d metric current \<le> MaxCapacity d"
  by (simp add: CalculateDesiredCapacity_clamped Let_def)

text \<open>
  C2. With a positive target and \<open>MinCapacity \<le> MaxCapacity\<close>, \<open>CalculateDesiredCapacity\<close>
  returns the proportional capacity \<open>metric / target * current\<close>, rounded up when it exceeds
  the current capacity and down otherwise, and clamped to the bounds after rounding; the
  result lies within the bounds; and the five cases of the repository's test hold
  (bounds 1 and 5, target 50).
\<close>

theorem CalculateDesiredCapacity_is_clamped_rounding:
  "(\<forall>d metric current. 0 < TargetValue d \<longrightarrow> MinCapacity d \<le> MaxCapacity d \<longrightarrow>
      CalculateDesiredCapacity d metric current
        = desiredBySpec metric (TargetValue d) current (MinCapacity d) (MaxCapacity d)
      \<and> MinCapacity d \<le> CalculateDesiredCapacity d metric current
      \<and> CalculateDesiredCapacity d metric current \<le> MaxCapacity d)
   \<and> CalculateDesiredCapacity testConfig 80 2 = 4
   \<and> CalculateDesiredCapacity testConfig 20 3 = 1
   \<and> CalculateDesiredCapacity testConfig 50 2 = 2
   \<and> CalculateDesiredCapacity testConfig 10 2 = 1
   \<and> CalculateDesiredCapacity testConfig 300 2 = 5"
proof -
  have gen: "\<And>d metric current. MinCapacity d \<le> MaxCapacity d \<Longrightarrow>
      CalculateDesiredCapacity d metric current
        = desiredBySpec metric (TargetValue d) current (MinCapacity d) (MaxCapacity d)
      \<and> MinCapacity d \<le> CalculateDesiredCapacity d metric current
      \<and> CalculateDesiredCapacity d metric current \<le> MaxCapacity d"
    by (auto simp: CalculateDesiredCapacity_clamped desiredBySpec_def clamp_def Let_def)
  have c1: "CalculateDesiredCapacity testConfig 80 2 = 4"
    by (simp add: CalculateDesiredCapacity_clamped roundDirected_def testConfig_def)
  have c2: "CalculateDesiredCapacity testConfig 20 3 = 1"
    by (simp add: CalculateDesiredCapacity_clamped roundDirected_def testConfig_def)
  have c3: "CalculateDesiredCapacity testConfig 50 2 = 2"
    by (simp add: CalculateDesiredCapacity_clamped roundDirected_def testConfig_def)
  have c4: "CalculateDesiredCapacity testConfig 10 2 = 1"
    by (simp add: CalculateDesiredCapacity_clamped roundDirected_def testConfig_def)
  have c5: "CalculateDesiredCapacity testConfig 300 2 = 5"
    by (simp add: CalculateDesiredCapacity_clamped roundDirected_def testConfig_def)
  from gen c1 c2 c3 c4 c5 show ?thesis by blast
qed

theorem CalculateDesiredCapacity_is_clamped_rounding_witness:
  "0 < TargetValue testConfig \<and> MinCapacity testConfig \<le> MaxCapacity testConfig
   \<and> CalculateDesiredCapacity testConfig 80 2
       = desiredBySpec 80 (TargetValue testConfig) 2 (MinCapacity testConfig) (MaxCapacity testConfig)
   \<and> desiredBySpec 80 50 2 1 5 = 4
   \<and> MinCapacity testConfig \<le> CalculateDesiredCapacity testConfig 80 2
   \<and> CalculateDesiredCapacity testConfig 80 2 \<le> MaxCapacity testConfig"
proof -
  have pos: "0 < TargetValue testConfig" and le: "MinCapacity testConfig \<le> MaxCapacity testConfig"
    by (simp_all add: testConfig_def)
  have spec: "desiredBySpec 80 50 2 1 5 = 4"
    by (simp add: desiredBySpec_def roundDirected_def clamp_def)
  from CalculateDesiredCapacity_is_clamped_rounding pos le spec show ?thesis
    by blast
qed

section \<open>The retrying executor\<close>

text \<open>
  C10. For every action and every \<open>maxRetries \<le> 0\<close>, \<open>executeWithRetry\<close> returns the
  error "scaling action failed after N attempts" with \<open>N = maxRetries\<close> and leaves the
  world as it was: the action is not invoked and nothing is slept, whatever the action is.
\<close>

theorem executeWithRetry_without_attempts:
  "maxRetries \<le> 0 \<Longrightarrow>
     executeWithRetry action maxRetries initialBackoff w
       = (Err (Msg (''scaling action failed after '' @ showInt maxRetries @ '' attempts'')), w)"
  by (simp add: executeWithRetry_def executeWithRetryLoop.simps)

theorem executeWithRetry_without_attempts_witness:
  "(0::int) \<le> 0 \<and> (-2::int) \<le> 0
   \<and> executeWithRetry (ExecuteScalingAction testConfig) 0 Second testWorld
       = (Err (Msg ''scaling action failed after 0 attempts''), testWorld)
   \<and> executeWithRetry (ExecuteScalingAction testConfig) (-2) Second testWorld
       = (Err (Msg ''scaling action failed after -2 attempts''), testWorld)"
  using executeWithRetry_without_attempts [of 0 "ExecuteScalingAction testConfig" Second testWorld]
        executeWithRetry_without_attempts [of "-2" "ExecuteScalingAction testConfig" Second testWorld]
  by (simp add: showInt_def showDigits.simps digitChar_def)

section \<open>Dry run\<close>



section \<open>Which nodes are created and deleted\<close>

text \<open>
  Every delete call of a reconciliation names a reader of the inventory (its identifier
  differs from the writer's) that is available and carries the tag of the invocation's
  mode with the value \<open>true\<close>; so the writer is never passed to a delete call. Every
  create call carries an identifier generated from the cluster identifier, the suffix of
  the mode and a reading of the clock.
\<close>

lemma deletes_only_owned_readers:
  assumes "ExecuteScalingAction d w = (r, w')"
  shows "(\<forall>i ok. (DeleteDBInstanceCall i, ok) \<in> set (newEvents w w')
            \<longrightarrow> isOwnedReader (modeTagKey d) w i)
       \<and> (\<forall>i k ok. (CreateDBInstanceCall i k, ok) \<in> set (newEvents w w')
            \<longrightarrow> generatedIdentifier d (modeSuffix d) w i)"
proof -
  from ExecuteScalingAction_effects[OF assms]
  have s: "steps (engineCallAt d w) w w'" by (simp add: effects_def)
  have "isOwnedReader (modeTagKey d) w i" if "(DeleteDBInstanceCall i, ok) \<in> set (newEvents w w')"
    for i ok
    using steps_newEvents[OF s that]
    by (simp add: engineCallAt_def isRead_def isScaleNotification_def isDryRunRecord_def
          split: if_splits)
  moreover have "generatedIdentifier d (modeSuffix d) w i"
    if "(CreateDBInstanceCall i k, ok) \<in> set (newEvents w w')" for i k ok
    using steps_newEvents[OF s that]
    by (simp add: engineCallAt_def isRead_def isScaleNotification_def isDryRunRecord_def
          split: if_splits)
  ultimately show ?thesis by blast
qed

lemma deletes_only_owned_readers_example:
  "(DeleteDBInstanceCall ''replica-1'', True)
       \<in> set (newEvents scaledOutWorld (snd (ExecuteScalingAction testConfig scaledOutWorld)))
   \<and> isOwnedReader (modeTagKey testConfig) scaledOutWorld ''replica-1''
   \<and> writerIdentifierOf (dbClusters scaledOutWorld) = Some ''writer-instance''
   \<and> (DeleteDBInstanceCall ''replica-2'', True)
       \<in> set (newEvents ownedReaderWorld (snd (ExecuteScalingAction metricConfig ownedReaderWorld)))
   \<and> isOwnedReader (modeTagKey metricConfig) ownedReaderWorld ''replica-2''
   \<and> (CreateDBInstanceCall ''test-cluster-scheduler-123456789'' ''db.r6g.large'', True)
       \<in> set (newEvents testWorld (snd (ExecuteScalingAction testConfig testWorld)))
   \<and> generatedIdentifier testConfig (modeSuffix testConfig) testWorld
        ''test-cluster-scheduler-123456789''"
proof -
  have d1: "(DeleteDBInstanceCall ''replica-1'', True)
       \<in> set (newEvents scaledOutWorld (snd (ExecuteScalingAction testConfig scaledOutWorld)))"
    by code_simp
  have d2: "(DeleteDBInstanceCall ''replica-2'', True)
       \<in> set (newEvents ownedReaderWorld (snd (ExecuteScalingAction metricConfig ownedReaderWorld)))"
    by code_simp
  have c1: "(CreateDBInstanceCall ''test-cluster-scheduler-123456789'' ''db.r6g.large'', True)
       \<in> set (newEvents testWorld (snd (ExecuteScalingAction testConfig testWorld)))"
    by code_simp
  have wr: "writerIdentifierOf (dbClusters scaledOutWorld) = Some ''writer-instance''"
    by code_simp
  from deletes_only_owned_readers[OF surjective_pairing] d1
  have "isOwnedReader (modeTagKey testConfig) scaledOutWorld ''replica-1''" by blast
  moreover from deletes_only_owned_readers[OF surjective_pairing] d2
  have "isOwnedReader (modeTagKey metricConfig) ownedReaderWorld ''replica-2''" by blast
  moreover from deletes_only_owned_readers[OF surjective_pairing] c1
  have "generatedIdentifier testConfig (modeSuffix testConfig) testWorld
          ''test-cluster-scheduler-123456789''" by blast
  ultimately show ?thesis using d1 d2 c1 wr by blast
qed

text \<open>
  C3. The delete calls are as the claim says: the lemma above. The create calls are not.
  The identifier of a new replica ends in the last nine digits of the clock in
  nanoseconds, which the comments of the provisioner take to ensure uniqueness
  (\<open>Use last 9 digits to ensure uniqueness\<close>); these digits repeat every second, and
  nothing compares the identifier with those of the inventory. Where the writer is a
  replica that the schedule mode created earlier and that was promoted since, and the
  clock shows the same nine digits again, the create call carries the writer's identifier.
\<close>

theorem create_call_with_the_writer_identifier:
  "writerIdentifierOf (dbClusters promotedWriterWorld) = Some ''test-cluster-scheduler-123456789''
   \<and> (CreateDBInstanceCall ''test-cluster-scheduler-123456789'' ''db.r6g.large'', True)
       \<in> set (newEvents promotedWriterWorld
                (snd (ExecuteScalingAction testConfig promotedWriterWorld)))
   \<and> uniqueIDOf 1700000000123456789 = Some ''123456789''
   \<and> uniqueIDOf 1700000001123456789 = Some ''123456789''"
  by (intro conjI; code_simp)


section \<open>Failures of a tag lookup\<close>

text \<open>
  C8, as stated, fails in the metric mode: \<open>RemoveReplica\<close> logs a failed tag lookup and
  goes on to the next node. Here the lookup of the first reader's tags fails, the second
  reader is deleted and the reconciliation succeeds.
\<close>

theorem metric_mode_skips_failed_tag_read:
  "\<not> ScheduledScaling metricConfig
   \<and> (ListTagsForResourceCall ''arn:replica-1'', False)
       \<in> set (newEvents tagFailureWorld (snd (ExecuteScalingAction metricConfig tagFailureWorld)))
   \<and> fst (ExecuteScalingAction metricConfig tagFailureWorld) = Ok ()
   \<and> (DeleteDBInstanceCall ''replica-2'', True)
       \<in> set (newEvents tagFailureWorld (snd (ExecuteScalingAction metricConfig tagFailureWorld)))"
  by (intro conjI; code_simp)

text \<open>
  C8, amended. In the schedule mode every failed tag lookup ends the reconciliation with
  an error, which the retrying executor then sees, and nothing has been created, deleted
  or tagged. In the metric mode's removal path a failed tag lookup is logged and the node
  is skipped.
\<close>

theorem schedule_mode_propagates_tag_read_failure:
  assumes "ScheduledScaling d" "ExecuteScalingAction d w = (r, w')"
    "(ListTagsForResourceCall arn, False) \<in> set (newEvents w w')"
  shows "(\<exists>e. r = Err e) \<and> dbInstances w' = dbInstances w \<and> tagLists w' = tagLists w"
proof -
  from assms(1,2) have run: "ExecuteScheduledScalingAction d w = (r, w')"
    by (simp add: ExecuteScalingAction_def)
  have notTag: "\<not> isTagRead c"
    if "createCall d s v c \<or> scheduledDelete d xs c \<or> isScaleNotification c" for c s v xs
    using that
    by (auto simp: createCall_def scheduledDelete_def isTagRead_def isDescribe_def
          isDryRunRecord_def isScaleNotification_def list_ex_iff split: call.splits if_splits)
  have quiet: "noFailedTagRead a b" if "steps P a b" "\<And>c. P c \<Longrightarrow> \<not> isTagRead c" for P a b
    using that by (fastforce simp: noFailedTagRead_def steps_def newEvents_def list_all_iff)
  have absurd: False if "noFailedTagRead w w'"
    using that assms(3) by (auto simp: noFailedTagRead_def list_all_iff isTagRead_def)
  have tail: "noFailedTagRead w3 w'"
    if "r3 = Ok () \<and> r = Ok () \<and> notified c w3 w' \<or> r3 \<noteq> Ok () \<and> r = r3 \<and> w' = w3"
      "isScaleNotification c" for r3 w3 c
    using that notTag
    by (auto simp: notified_def noFailedTagRead_def newEvents_self isTagRead_def
          isScaleNotification_def split: call.splits)
  from run show ?thesis
  proof (cases rule: ExecuteScheduledScalingAction_cases)
    case (failed e)
    with reads_fields[OF failed(2)] show ?thesis by simp
  next
    case (unchanged wid)
    with absurd show ?thesis by simp
  next
    case (scaleIn wid w2 r3 w3)
    from RemoveScheduledReplicas_removal[OF scaleIn(5)]
    have s23: "steps (scheduledDelete d (scheduledOf wid w)) w2 w3"
      by (simp add: scheduledRemoval_def)
    then have "noFailedTagRead w2 w3" using notTag by (blast intro: quiet)
    with scaleIn(3,4) s23 have n3: "noFailedTagRead w w3"
      by (auto simp: reads_def intro: noFailedTagRead_append)
    have s3: "steps (\<lambda>c. True) w w3"
      using scaleIn(3) s23 by (auto simp: reads_def intro: steps_trans steps_mono)
    have s4: "steps (\<lambda>c. True) w3 w'"
      using scaleIn(6) by (auto simp: notified_def steps_refl intro: steps_mono)
    from tail[OF scaleIn(6)] have "noFailedTagRead w3 w'" by (simp add: isScaleNotification_def)
    with n3 s3 s4 have "noFailedTagRead w w'" by (blast intro: noFailedTagRead_append)
    with absurd show ?thesis by simp
  next
    case (scaleOut wid k w2 r3 w3)
    from AddScheduledReplicas_creates[OF scaleOut(6)]
    have s23: "steps (createCall d ''scheduler'' w2) w2 w3"
      by (simp add: creates_def)
    then have "noFailedTagRead w2 w3" using notTag by (blast intro: quiet)
    with scaleOut(4,5) s23 have n3: "noFailedTagRead w w3"
      by (auto simp: reads_def intro: noFailedTagRead_append)
    have s3: "steps (\<lambda>c. True) w w3"
      using scaleOut(4) s23 by (auto simp: reads_def intro: steps_trans steps_mono)
    have s4: "steps (\<lambda>c. True) w3 w'"
      using scaleOut(7) by (auto simp: notified_def steps_refl intro: steps_mono)
    from tail[OF scaleOut(7)] have "noFailedTagRead w3 w'" by (simp add: isScaleNotification_def)
    with n3 s3 s4 have "noFailedTagRead w w'" by (blast intro: noFailedTagRead_append)
    with absurd show ?thesis by simp
  qed
qed

theorem schedule_mode_propagates_tag_read_failure_witness:
  "ScheduledScaling testConfig
   \<and> (ListTagsForResourceCall ''arn:replica-1'', False)
       \<in> set (newEvents scheduleTagFailureWorld
                (snd (ExecuteScalingAction testConfig scheduleTagFailureWorld)))
   \<and> fst (ExecuteScalingAction testConfig scheduleTagFailureWorld) = Err (Fault 2)
   \<and> dbInstances (snd (ExecuteScalingAction testConfig scheduleTagFailureWorld))
       = dbInstances scheduleTagFailureWorld"
proof -
  let ?run = "ExecuteScalingAction testConfig scheduleTagFailureWorld"
  have s: "ScheduledScaling testConfig" by code_simp
  have f: "(ListTagsForResourceCall ''arn:replica-1'', False)
       \<in> set (newEvents scheduleTagFailureWorld (snd ?run))"
    by code_simp
  have r: "fst ?run = Err (Fault 2)" by code_simp
  from schedule_mode_propagates_tag_read_failure[OF s surjective_pairing f]
  have "dbInstances (snd ?run) = dbInstances scheduleTagFailureWorld" by simp
  with s f r show ?thesis by blast
qed

section \<open>The bounds on the reader count\<close>

text \<open>
  C1, as stated, fails for the scale-in of the schedule mode, which removes every
  available schedule-owned node and never reads \<open>MinCapacity\<close>: in the world of the
  repository's scale-in test, with \<open>MinCapacity = 1\<close>, the only reader is removed.
\<close>

theorem scheduled_scale_in_goes_below_minimum:
  "ScheduledScaling testConfig
   \<and> MinCapacity testConfig \<le> readerCount scaledOutWorld
   \<and> readerCount scaledOutWorld \<le> MaxCapacity testConfig
   \<and> fst (ExecuteScalingAction testConfig scaledOutWorld) = Ok ()
   \<and> readerCount (snd (ExecuteScalingAction testConfig scaledOutWorld)) = 0
   \<and> readerCount (snd (ExecuteScalingAction testConfig scaledOutWorld)) < MinCapacity testConfig"
  by (intro conjI; code_simp)

text \<open>
  C1, amended. Whenever the reader count lies within \<open>[MinCapacity, MaxCapacity]\<close> before a
  reconciliation (with a positive target in the metric mode), it is at most \<open>MaxCapacity\<close>
  afterwards, in both modes. It is at least \<open>MinCapacity\<close> afterwards in the metric mode,
  and in the schedule mode when no reader is schedule-owned (the scale-out). When a reader
  is schedule-owned, the schedule mode scales in: the reader count does not grow, and the
  lower bound is not enforced.
\<close>

theorem reader_count_stays_in_bounds:
  assumes "MinCapacity d \<le> readerCount w" "readerCount w \<le> MaxCapacity d"
    "ScheduledScaling d \<or> 0 < TargetValue d"
    "ExecuteScalingAction d w = (r, w')"
  shows "readerCount w' \<le> MaxCapacity d
       \<and> (if ScheduledScaling d \<and> isScaledOut w then readerCount w' \<le> readerCount w
           else MinCapacity d \<le> readerCount w')"
proof (cases "ScheduledScaling d")
  case True
  with assms(4) have "ExecuteScheduledScalingAction d w = (r, w')"
    by (simp add: ExecuteScalingAction_def)
  then show ?thesis
  proof (cases rule: ExecuteScheduledScalingAction_cases)
    case (failed e)
    with assms(1,2) reads_readerCount[OF failed(2)] show ?thesis by simp
  next
    case (unchanged wid)
    with assms(1,2) reads_readerCount[OF unchanged(5)] show ?thesis by simp
  next
    case (scaleIn wid w2 r3 w3)
    from RemoveScheduledReplicas_removal[OF scaleIn(5)]
    have "readerCount w3 \<le> readerCount w2" by (simp add: scheduledRemoval_def)
    with reads_readerCount[OF scaleIn(3)] have "readerCount w3 \<le> readerCount w" by simp
    moreover from scaleIn(6) notified_fields have "readerCount w' = readerCount w3" by blast
    moreover from scaleIn(1,2) have "isScaledOut w" by (simp add: isScaledOut_def)
    ultimately show ?thesis using assms(2) True by simp
  next
    case (scaleOut wid k w2 r3 w3)
    from creates_readerCount[OF AddScheduledReplicas_creates[OF scaleOut(6)]]
      reads_readerCount[OF scaleOut(4)]
    have g: "readerCount w \<le> readerCount w3" "readerCount w3 \<le> readerCount w + int (nat k)"
      by simp_all
    from scaleOut(3) assms(1,2) have "readerCount w + int (nat k) \<le> MaxCapacity d"
      by (auto simp: scheduledReplicasToAdd_def Let_def split: if_splits)
    moreover from scaleOut(7) notified_fields have "readerCount w' = readerCount w3" by blast
    moreover from scaleOut(1,2) have "\<not> isScaledOut w" by (simp add: isScaledOut_def)
    ultimately show ?thesis using g assms(1) by simp
  qed
next
  case False
  from assms(1,2) have le: "MinCapacity d \<le> MaxCapacity d" by simp
  from False assms(4) have "ExecuteMetricBasedScalingAction d w = (r, w')"
    by (simp add: ExecuteScalingAction_def)
  then show ?thesis
  proof (cases rule: ExecuteMetricBasedScalingAction_cases)
    case quiet
    with assms(1,2) False reads_readerCount[OF quiet(1)] show ?thesis by simp
  next
    case (scaleOut m w2 r3 w3)
    let ?desired = "CalculateDesiredCapacity d m (readerCount w)"
    from creates_readerCount[OF AddReplicas_creates[OF scaleOut(3)]]
      reads_readerCount[OF scaleOut(1)] scaleOut(2)
    have g: "readerCount w \<le> readerCount w3" "readerCount w3 \<le> ?desired"
      by simp_all
    from CalculateDesiredCapacity_bounds[OF le] have "?desired \<le> MaxCapacity d" by simp
    moreover from scaleOut(4) notified_fields have "readerCount w' = readerCount w3" by blast
    ultimately show ?thesis using g assms(1) False by simp
  next
    case (scaleIn m w2 r3 w3)
    let ?desired = "CalculateDesiredCapacity d m (readerCount w)"
    from removal_effects[OF RemoveReplica_removal[OF scaleIn(3)] False]
      reads_readerCount[OF scaleIn(1)]
    have g: "readerCount w - 1 \<le> readerCount w3" "readerCount w3 \<le> readerCount w"
      by simp_all
    from CalculateDesiredCapacity_bounds[OF le] have "MinCapacity d \<le> ?desired" by simp
    moreover from scaleIn(4) notified_fields have "readerCount w' = readerCount w3" by blast
    ultimately show ?thesis using g assms(2) scaleIn(2) False by simp
  qed
qed

theorem reader_count_stays_in_bounds_witness:
  "MinCapacity testConfig \<le> readerCount testWorld
   \<and> readerCount testWorld \<le> MaxCapacity testConfig
   \<and> ScheduledScaling testConfig
   \<and> 0 < TargetValue metricConfig
   \<and> readerCount (snd (ExecuteScalingAction testConfig testWorld)) = 3
   \<and> readerCount (snd (ExecuteScalingAction testConfig testWorld)) \<le> MaxCapacity testConfig
   \<and> MinCapacity testConfig \<le> readerCount (snd (ExecuteScalingAction testConfig testWorld))
   \<and> readerCount (snd (ExecuteScalingAction metricConfig testWorld)) = 2
   \<and> readerCount (snd (ExecuteScalingAction metricConfig testWorld)) \<le> MaxCapacity metricConfig
   \<and> MinCapacity metricConfig \<le> readerCount (snd (ExecuteScalingAction metricConfig testWorld))"
proof -
  have b: "MinCapacity testConfig \<le> readerCount testWorld"
    "readerCount testWorld \<le> MaxCapacity testConfig"
    "MinCapacity metricConfig \<le> readerCount testWorld"
    "readerCount testWorld \<le> MaxCapacity metricConfig"
    by code_simp+
  have m: "ScheduledScaling testConfig" "\<not> ScheduledScaling metricConfig"
    "\<not> isScaledOut testWorld"
    by code_simp+
  have t: "0 < TargetValue metricConfig" by (simp add: metricConfig_def testConfig_def)
  have c: "readerCount (snd (ExecuteScalingAction testConfig testWorld)) = 3"
    "readerCount (snd (ExecuteScalingAction metricConfig testWorld)) = 2"
    by code_simp+
  from reader_count_stays_in_bounds[OF b(1,2) _ surjective_pairing] m
  have "readerCount (snd (ExecuteScalingAction testConfig testWorld)) \<le> MaxCapacity testConfig
      \<and> MinCapacity testConfig \<le> readerCount (snd (ExecuteScalingAction testConfig testWorld))"
    by simp
  moreover from reader_count_stays_in_bounds[OF b(3,4) _ surjective_pairing] m t
  have "readerCount (snd (ExecuteScalingAction metricConfig testWorld)) \<le> MaxCapacity metricConfig
      \<and> MinCapacity metricConfig \<le> readerCount (snd (ExecuteScalingAction metricConfig testWorld))"
    by simp
  ultimately show ?thesis using b m t c by blast
qed

section \<open>Scale-in in the metric mode\<close>

text \<open>
  C5, as stated, fails where no reader is both metric-owned and available:
  \<open>RemoveReplica\<close> then returns without an error and nothing is removed. Here two
  untagged readers run under a low load; the desired capacity is below the current one,
  the reconciliation succeeds, and no delete call is made.
\<close>

theorem metric_scale_in_without_owned_reader:
  "\<not> ScheduledScaling metricConfig
   \<and> fst (GetCurrentMetricValue metricConfig twoReaderWorld) = Ok 10
   \<and> CalculateDesiredCapacity metricConfig 10 (readerCount twoReaderWorld)
       < readerCount twoReaderWorld
   \<and> fst (ExecuteScalingAction metricConfig twoReaderWorld) = Ok ()
   \<and> deletions twoReaderWorld (snd (ExecuteScalingAction metricConfig twoReaderWorld)) = []
   \<and> dbInstances (snd (ExecuteScalingAction metricConfig twoReaderWorld))
       = dbInstances twoReaderWorld"
  by (intro conjI; code_simp)

text \<open>
  C5, amended. In the metric mode, whenever the desired capacity is below the current
  one, the reconciliation makes at most one delete call, and only for an available,
  metric-owned reader; either the inventory is unchanged, or exactly one such reader is
  removed, the reconciliation succeeds and a scale-in notification reporting one replica
  is sent. Exactly one is removed whenever such a reader exists, no call fails and
  \<open>DryRun\<close> is not set.
\<close>

theorem metric_scale_in_removes_at_most_one:
  assumes "\<not> ScheduledScaling d" "0 < TargetValue d"
    "GetCurrentMetricValue d w = (Ok m, w1)"
    "CalculateDesiredCapacity d m (readerCount w) < readerCount w"
    "ExecuteScalingAction d w = (r, w')"
  shows "length (deletions w w') \<le> 1
       \<and> list_all (\<lambda>e. \<exists>i. fst e = DeleteDBInstanceCall i
                         \<and> isOwnedReader ''docdb-autoscaler-created'' w i) (deletions w w')
       \<and> (dbInstances w' = dbInstances w \<or> (\<exists>i. removedOne d w r w' i))
       \<and> (\<not> DryRun d \<and> nofaults w \<and> isOwnedReader ''docdb-autoscaler-created'' w i0
            \<longrightarrow> (\<exists>i. removedOne d w r w' i))"
proof -
  from assms(1,5) have run: "ExecuteMetricBasedScalingAction d w = (r, w')"
    by (simp add: ExecuteScalingAction_def)
  from assms(3) have gm: "fst (GetCurrentMetricValue d w) = Ok m" by simp
  from GetCurrentMetricValue_reads[OF assms(3)] have r01: "reads w w1" by simp
  from run show ?thesis
  proof (cases rule: ExecuteMetricBasedScalingAction_cases)
    case quiet
    have "\<not> (nofaults w \<and> isOwnedReader ''docdb-autoscaler-created'' w i0)"
    proof
      assume a: "nofaults w \<and> isOwnedReader ''docdb-autoscaler-created'' w i0"
      then obtain wid where wid: "writerIdentifierOf (dbClusters w) = Some wid"
        by (auto elim: isOwnedReaderE)
      from a r01 have n1: "nofaults w1" by (blast intro: nofaults_reads)
      from wid reads_fields[OF r01] have "writerIdentifierOf (dbClusters w1) = Some wid" by simp
      from GetCurrentCapacity_ok[OF n1 this, of d] quiet(3) gm assms(3,4)
      show False by auto
    qed
    with reads_fields[OF quiet(1)] reads_deletions[OF quiet(1)] show ?thesis by auto
  next
    case (scaleOut m' w2 r3 w3)
    with gm assms(4) show ?thesis by simp
  next
    case (scaleIn m' w2 r3 w3)
    note f2 = reads_fields[OF scaleIn(1)]
    from f2 have own_eq: "isOwnedReader ''docdb-autoscaler-created'' w2 i
        = isOwnedReader ''docdb-autoscaler-created'' w i" for i
      by (intro isOwnedReader_frame) simp_all
    from scaleIn(1) have s02: "steps (\<lambda>c. True) w w2" by (auto simp: reads_def intro: steps_mono)
    note o = removal_outcome[OF RemoveReplica_removal[OF scaleIn(3)]]
    from o have s23: "steps (\<lambda>c. True) w2 w3" by simp
    from deletions_append[OF s02 s23] reads_deletions[OF scaleIn(1)]
    have d3: "deletions w w3 = deletions w2 w3" by simp
    from s02 s23 have s03: "steps (\<lambda>c. True) w w3" by (rule steps_trans)
    have tail: "deletions w w' = deletions w w3 \<and> dbInstances w' = dbInstances w3
        \<and> (r3 = Ok () \<longrightarrow> r = Ok ()
              \<and> list_ex (\<lambda>e. fst e = ScaleInNotificationCall (ClusterID d) 1) (newEvents w w'))"
    proof (cases "r3 = Ok ()")
      case True
      with scaleIn(4) have n: "notified (ScaleInNotificationCall (ClusterID d) 1) w3 w'"
        and r: "r = Ok ()" by auto
      from n have s34: "steps (\<lambda>c. True) w3 w'" by (auto simp: notified_def intro: steps_mono)
      from notified_deletions[OF n] deletions_append[OF s03 s34]
      have "deletions w w' = deletions w w3" by (simp add: isDelete_def)
      moreover from n newEvents_append[OF s03 s34]
      have "list_ex (\<lambda>e. fst e = ScaleInNotificationCall (ClusterID d) 1) (newEvents w w')"
        by (auto simp: notified_def)
      ultimately show ?thesis using notified_fields[OF n] r by simp
    next
      case False
      with scaleIn(4) show ?thesis by simp
    qed
    have one: "\<exists>i. removedOne d w r w' i"
      if "\<not> DryRun d" "isOwnedReader ''docdb-autoscaler-created'' w i" "r3 = Ok ()"
        "deletions w2 w3 = [(DeleteDBInstanceCall i, True)]"
        "dbInstances w3 = removeInstance i (dbInstances w2)" for i
      using that tail d3 f2 by (auto simp: removedOne_def)
    have part3: "dbInstances w' = dbInstances w \<or> (\<exists>i. removedOne d w r w' i)"
      using o one tail f2 own_eq by auto
    have part4: "\<exists>i. removedOne d w r w' i"
      if a: "\<not> DryRun d \<and> nofaults w \<and> isOwnedReader ''docdb-autoscaler-created'' w i0"
    proof -
      from a scaleIn(1) have n2: "nofaults w2" by (blast intro: nofaults_reads)
      from a own_eq have "isOwnedReader ''docdb-autoscaler-created'' w2 i0" by simp
      from RemoveReplica_ok[OF n2 _ this scaleIn(3)] a obtain j v where
        j: "r3 = Ok ()" "isOwnedReader ''docdb-autoscaler-created'' w2 j" "reads w2 v"
        "DeleteDBInstance j v = (Ok (), w3)"
        "dbInstances w3 = removeInstance j (dbInstances w2)" by blast
      from j(3) have sv: "steps (\<lambda>c. True) w2 v" by (auto simp: reads_def intro: steps_mono)
      from DeleteDBInstance_effect[OF j(4)]
      have e: "steps (\<lambda>c. True) v w3" "deletions v w3 = [(DeleteDBInstanceCall j, True)]"
        by (auto simp: deletions_def isDelete_def intro: steps_mono)
      from deletions_append[OF sv e(1)] reads_deletions[OF j(3)] e(2)
      have "deletions w2 w3 = [(DeleteDBInstanceCall j, True)]" by simp
      with one[of j] a j own_eq show ?thesis by simp
    qed
    from o d3 tail own_eq part3 part4 show ?thesis by simp
  qed
qed

theorem metric_scale_in_removes_at_most_one_witness:
  "\<not> ScheduledScaling metricConfig \<and> 0 < TargetValue metricConfig
   \<and> fst (GetCurrentMetricValue metricConfig ownedReaderWorld) = Ok 10
   \<and> CalculateDesiredCapacity metricConfig 10 (readerCount ownedReaderWorld)
       < readerCount ownedReaderWorld
   \<and> \<not> DryRun metricConfig \<and> nofaults ownedReaderWorld
   \<and> isOwnedReader ''docdb-autoscaler-created'' ownedReaderWorld ''replica-2''
   \<and> length (deletions ownedReaderWorld
                (snd (ExecuteScalingAction metricConfig ownedReaderWorld))) \<le> 1
   \<and> (\<exists>i. removedOne metricConfig ownedReaderWorld
              (fst (ExecuteScalingAction metricConfig ownedReaderWorld))
              (snd (ExecuteScalingAction metricConfig ownedReaderWorld)) i)
   \<and> deletions ownedReaderWorld (snd (ExecuteScalingAction metricConfig ownedReaderWorld))
       = [(DeleteDBInstanceCall ''replica-2'', True)]
   \<and> map DBInstanceIdentifier
         (dbInstances (snd (ExecuteScalingAction metricConfig ownedReaderWorld)))
       = [''replica-1'', ''writer-instance'']"
proof -
  let ?run = "ExecuteScalingAction metricConfig ownedReaderWorld"
  let ?sample = "GetCurrentMetricValue metricConfig ownedReaderWorld"
  have mode: "\<not> ScheduledScaling metricConfig" "\<not> DryRun metricConfig" by code_simp+
  have target: "0 < TargetValue metricConfig" by (simp add: metricConfig_def testConfig_def)
  have sample: "fst ?sample = Ok 10" by code_simp
  then have sampled: "?sample = (Ok 10, snd ?sample)" by (metis surjective_pairing)
  have below: "CalculateDesiredCapacity metricConfig 10 (readerCount ownedReaderWorld)
       < readerCount ownedReaderWorld" by code_simp
  have quiet: "nofaults ownedReaderWorld"
    by (simp add: nofaults_def ownedReaderWorld_def twoReaderWorld_def testWorld_def)
  have own: "isOwnedReader ''docdb-autoscaler-created'' ownedReaderWorld ''replica-2''"
    by code_simp
  have del: "deletions ownedReaderWorld (snd ?run) = [(DeleteDBInstanceCall ''replica-2'', True)]"
    by code_simp
  have inv: "map DBInstanceIdentifier (dbInstances (snd ?run)) = [''replica-1'', ''writer-instance'']"
    by code_simp
  from metric_scale_in_removes_at_most_one[OF mode(1) target sampled below surjective_pairing,
      of "''replica-2''"] mode(2) quiet own
  have "length (deletions ownedReaderWorld (snd ?run)) \<le> 1
      \<and> (\<exists>i. removedOne metricConfig ownedReaderWorld (fst ?run) (snd ?run) i)"
    by blast
  with mode target sample below quiet own del inv show ?thesis by blast
qed

section \<open>Exhausted retries\<close>

lemma executeWithRetryLoop_steps:
  assumes "\<And>v r1 v1. action v = (r1, v1) \<Longrightarrow> steps P v v1" "\<And>n. P (SleepCall n)"
  shows "executeWithRetryLoop action maxRetries attempt backoff w = (r, w') \<Longrightarrow> steps P w w'"
proof (induction "nat (maxRetries + 1 - attempt)" arbitrary: attempt backoff w)
  case 0
  then have "\<not> attempt \<le> maxRetries" by simp
  with 0(2) show ?case by (simp add: executeWithRetryLoop.simps steps_refl)
next
  case (Suc n)
  then have le: "attempt \<le> maxRetries" by simp
  obtain r1 w1 where a: "action w = (r1, w1)" by (cases "action w")
  note s1 = assms(1)[OF a]
  show ?case
  proof (cases r1)
    case (Ok u)
    with Suc.prems le a have "w' = w1" by (simp add: executeWithRetryLoop.simps)
    with s1 show ?thesis by simp
  next
    case Panic
    with Suc.prems le a have "w' = w1" by (simp add: executeWithRetryLoop.simps)
    with s1 show ?thesis by simp
  next
    case (Err e)
    let ?b = "if int64 (backoff * 2) > 32 * Second then 32 * Second else int64 (backoff * 2)"
    from Suc.prems le a Err
    have rec: "executeWithRetryLoop action maxRetries (attempt + 1) ?b (Sleep backoff w1) = (r, w')"
      by (simp add: executeWithRetryLoop.simps Let_def)
    from Suc.hyps(2) have "n = nat (maxRetries + 1 - (attempt + 1))" by simp
    from Suc.hyps(1)[OF this rec] have s3: "steps P (Sleep backoff w1) w'" .
    have "steps P w1 (Sleep backoff w1)" using assms(2) by (simp add: steps_def Sleep_def)
    with s1 s3 show ?thesis by (blast intro: steps_trans)
  qed
qed

lemma engineCallAt_engineCall: "engineCallAt d w c \<Longrightarrow> engineCall d c"
  by (auto simp: engineCallAt_def engineCall_def isMutation_def split: if_splits call.splits)

text \<open>
  Whatever the outcome of a scaling action, \<open>processScaling\<close> sends no failure
  notification: each call it makes is a call of a reconciliation or a sleep. What the
  executor returns, the aggregate error included, is returned to the caller as it is.
\<close>

lemma processScaling_sends_no_failure_notification:
  assumes "processScaling unmarshal autoscaler snsMessage maxRetries initialBackoff w
             = ((replicasToAdd, replicasToRemove, r), autoscaler', w')"
  shows "list_all (\<lambda>e. \<not> isFailureNotification (fst e)) (newEvents w w')"
    and "(r = Err UnmarshalError \<and> w' = w)
         \<or> executeWithRetry (ExecuteScalingAction autoscaler') maxRetries initialBackoff w
             = (r, w')"
proof -
  let ?P = "\<lambda>c. \<not> isFailureNotification c"
  have engine: "steps ?P v v1" if "ExecuteScalingAction d v = (r1, v1)" for d v r1 v1
  proof -
    from ExecuteScalingAction_effects[OF that] have "steps (engineCallAt d v) v v1"
      by (simp add: effects_def)
    then show ?thesis
    proof (rule steps_mono)
      fix c assume "engineCallAt d v c"
      then have "engineCall d c" by (rule engineCallAt_engineCall)
      then show "\<not> isFailureNotification c"
        by (auto simp: engineCall_def isFailureNotification_def isRead_def isMutation_def
              isScaleNotification_def isDryRunRecord_def split: call.splits if_splits)
    qed
  qed
  have retry: "steps ?P w v"
    if "executeWithRetry (ExecuteScalingAction d) maxRetries initialBackoff w = (r1, v)"
    for d r1 v
    using that unfolding executeWithRetry_def
    by (rule executeWithRetryLoop_steps[rotated 2])
       (erule engine, simp add: isFailureNotification_def)
  have "steps ?P w w'"
    using assms retry
    by (auto simp: processScaling_def Let_def steps_refl split: option.splits if_splits prod.splits)
  then show "list_all (\<lambda>e. \<not> isFailureNotification (fst e)) (newEvents w w')"
    by (auto simp: list_all_iff dest: steps_newEvents)
  show "(r = Err UnmarshalError \<and> w' = w)
         \<or> executeWithRetry (ExecuteScalingAction autoscaler') maxRetries initialBackoff w
             = (r, w')"
    using assms
    by (auto simp: processScaling_def Let_def split: option.splits if_splits prod.splits)
qed

text \<open>
  C9. No failure notification is sent. The notifier offers \<open>SendFailureNotification\<close>, which
  by its comment sends a notification when a scaling action fails, and the reconcilers
  do notify of a scale-out and of a scale-in; but nothing calls it. Here the directory
  answers no call: the executor gives up after three attempts, \<open>processScaling\<close> returns
  the aggregate error to its caller, and the calls made are three attempts and three
  sleeps, none of them a notification.
\<close>

theorem exhausted_retries_send_no_notification:
  "fst (processScaling (\<lambda>s. None) testConfig [] 3 Second unreachableWorld)
       = (2, 0, Err (Msg ''scaling action failed after 3 attempts''))
   \<and> trace (snd (snd (processScaling (\<lambda>s. None) testConfig [] 3 Second unreachableWorld)))
       = [(DescribeDBInstancesCall, False), (SleepCall 1000000000, True),
          (DescribeDBInstancesCall, False), (SleepCall 2000000000, True),
          (DescribeDBInstancesCall, False), (SleepCall 4000000000, True)]
   \<and> filter (\<lambda>e. isFailureNotification (fst e))
         (trace (snd (snd (processScaling (\<lambda>s. None) testConfig [] 3 Second unreachableWorld))))
       = []"
  by (intro conjI; code_simp)


text \<open>
  With an action that fails on every call, the executor goes through as many rounds as
  attempts remain, each an invocation of the action followed by a sleep, and returns the
  aggregate error.
\<close>

lemma executeWithRetryLoop_always_failing:
  assumes "\<And>v. \<exists>e. fst (action v) = Err e"
  shows "executeWithRetryLoop action maxRetries attempt backoff w
       = (Err (Msg (''scaling action failed after '' @ showInt maxRetries @ '' attempts'')),
          failedRounds action (nat (maxRetries + 1 - attempt)) backoff w)"
proof (induction "nat (maxRetries + 1 - attempt)" arbitrary: attempt backoff w)
  case 0
  then have "\<not> attempt \<le> maxRetries" by simp
  with 0 show ?case by (simp add: executeWithRetryLoop.simps)
next
  case (Suc n)
  then have le: "attempt \<le> maxRetries" by simp
  from assms[of w] obtain e where e: "action w = (Err e, snd (action w))"
    by (metis surjective_pairing)
  from Suc.hyps(2) have n: "n = nat (maxRetries + 1 - (attempt + 1))" by simp
  have "executeWithRetryLoop action maxRetries attempt backoff w
      = executeWithRetryLoop action maxRetries (attempt + 1) (nextBackoff backoff)
          (Sleep backoff (snd (action w)))"
    using le by (subst executeWithRetryLoop.simps, subst e) (simp add: Let_def nextBackoff_def)
  also note Suc.hyps(1)[OF n]
  also have "failedRounds action (nat (maxRetries + 1 - (attempt + 1))) (nextBackoff backoff)
          (Sleep backoff (snd (action w)))
        = failedRounds action (nat (maxRetries + 1 - attempt)) backoff w"
    using Suc.hyps(2)[symmetric] n by simp
  finally show ?case .
qed

text \<open>
  C4. The code sleeps after every failed attempt, the last one included: the comment
  at the sleep reads "Wait before the next retry", and after the last attempt there is
  none. With an action that always fails, \<open>maxRetries = 3\<close> and an initial backoff of one
  second, the action is invoked three times and the executor sleeps three times, for
  1 + 2 + 4 = 7 seconds, before it returns the aggregate error.
\<close>

theorem executeWithRetry_sleeps_after_last_attempt:
  "fst (executeWithRetry (ExecuteScalingAction testConfig) 3 Second unreachableWorld)
       = Err (Msg ''scaling action failed after 3 attempts'')
   \<and> trace (snd (executeWithRetry (ExecuteScalingAction testConfig) 3 Second unreachableWorld))
       = [(DescribeDBInstancesCall, False), (SleepCall (1 * Second), True),
          (DescribeDBInstancesCall, False), (SleepCall (2 * Second), True),
          (DescribeDBInstancesCall, False), (SleepCall (4 * Second), True)]
   \<and> attempts (trace (snd (executeWithRetry (ExecuteScalingAction testConfig) 3 Second
                              unreachableWorld))) = 3
   \<and> totalSleep (trace (snd (executeWithRetry (ExecuteScalingAction testConfig) 3 Second
                                unreachableWorld))) = 7 * Second"
  by (intro conjI; code_simp)

section \<open>Identifiers of new instances\<close>

text \<open>
  What the pipeline does ensure, for every cluster identifier, suffix and timestamp: the
  identifier starts with a letter, consists of letters, digits and hyphens, does not end
  with a hyphen, and has at most 64 characters.
\<close>

lemma isLetter_ascii:
  assumes "isLetter c"
  shows "(of_char c :: nat) < 0x80 \<and> isValidDBInstanceIdentifierChar c \<and> c \<noteq> CHR ''-''"
  using assms
  by (auto simp: isLetter_def isValidDBInstanceIdentifierChar_def less_eq_char_def)

lemma replaceInvalid_valid:
  "\<forall>c \<in> set (replaceInvalid k xs). isValidDBInstanceIdentifierChar c"
  by (induction k xs rule: replaceInvalid.induct)
     (auto simp: isValidDBInstanceIdentifierChar_def)

lemma replaceInvalid_length: "length (replaceInvalid k xs) \<le> length xs"
  by (induction k xs rule: replaceInvalid.induct) auto

lemma ReplaceAllHyphenPairs_set: "set (ReplaceAllHyphenPairs xs) \<subseteq> set xs"
  by (induction xs rule: ReplaceAllHyphenPairs.induct) auto

lemma ReplaceAllHyphenPairs_length: "length (ReplaceAllHyphenPairs xs) \<le> length xs"
  by (induction xs rule: ReplaceAllHyphenPairs.induct) auto

lemma ReplaceAllHyphenPairs_head:
  "c \<noteq> CHR ''-'' \<Longrightarrow> \<exists>ys. ReplaceAllHyphenPairs (c # xs) = c # ys"
  by (cases xs) auto

lemma TrimRight_props:
  "set (TrimRight s c) \<subseteq> set s \<and> length (TrimRight s c) \<le> length s
   \<and> (TrimRight s c \<noteq> [] \<longrightarrow> last (TrimRight s c) \<noteq> c)"
proof -
  have "set (dropWhile (\<lambda>x. x = c) (rev s)) \<subseteq> set s"
    using set_dropWhileD by fastforce
  moreover have "length (dropWhile (\<lambda>x. x = c) (rev s)) \<le> length s"
    using length_dropWhile_le[of "\<lambda>x. x = c" "rev s"] by simp
  moreover have "hd (dropWhile (\<lambda>x. x = c) (rev s)) \<noteq> c"
    if "dropWhile (\<lambda>x. x = c) (rev s) \<noteq> []"
    using hd_dropWhile[OF that] by simp
  ultimately show ?thesis by (simp add: TrimRight_def last_rev)
qed

lemma TrimRight_head: "x \<noteq> c \<Longrightarrow> TrimRight (x # xs) c = x # TrimRight xs c"
  by (simp add: TrimRight_def dropWhile_append)

lemma newIdentifier_holds:
  assumes "newIdentifier clusterID suffix uniqueID = Some s"
  shows "s \<noteq> [] \<and> isLetter (hd s) \<and> list_all isValidDBInstanceIdentifierChar s
       \<and> last s \<noteq> CHR ''-'' \<and> length s \<le> 64"
proof -
  define b where "b = clusterID @ ''-'' @ suffix @ ''-'' @ uniqueID"
  define b1 where "b1 = (if length b > 63 then TrimRight (take 63 b) (CHR ''-'') else b)"
  have len1: "length b1 \<le> 63"
    using TrimRight_props[of "take 63 b" "CHR ''-''"] by (auto simp: b1_def)
  from assms have san: "sanitizeDBInstanceIdentifier b1 = Some s"
    by (simp only: newIdentifier_def b_def b1_def Let_def)
  then obtain c0 rest where b1: "b1 = c0 # rest"
    by (cases b1) (auto simp: sanitizeDBInstanceIdentifier_def)
  define i1 where "i1 = (if \<not> isLetter c0 then CHR ''a'' # c0 # rest else c0 # rest)"
  have la: "isLetter (CHR ''a'')" by (simp add: isLetter_def less_eq_char_def)
  obtain l tl where i1: "i1 = l # tl" "isLetter l"
    using b1 la by (cases "isLetter c0") (auto simp: i1_def)
  have len2: "length i1 \<le> 64" using len1 b1 by (simp add: i1_def)
  from san have "Trim (ReplaceAllHyphenPairs (replaceInvalid 0 i1)) (CHR ''-'') = s"
    unfolding b1 sanitizeDBInstanceIdentifier_def i1_def
    by (simp only: list.case Let_def option.inject)
  then have s: "s = Trim (ReplaceAllHyphenPairs (replaceInvalid 0 i1)) (CHR ''-'')" by simp
  note l = isLetter_ascii[OF i1(2)]
  from i1 l obtain v where v: "replaceInvalid 0 i1 = l # v"
    by (simp del: runeWidth.simps)
  from l ReplaceAllHyphenPairs_head[of l v] obtain y where
    y: "ReplaceAllHyphenPairs (l # v) = l # y" by blast
  from l have dw: "dropWhile (\<lambda>x. x = CHR ''-'') (l # y) = l # y" by simp
  from l TrimRight_head[of l "CHR ''-''" y] obtain z where
    z: "TrimRight (l # y) (CHR ''-'') = l # z" by simp
  have st: "s = TrimRight (l # y) (CHR ''-'')"
    using l by (simp add: s v y Trim_def)
  with z have sz: "s = l # z" by simp
  note t = TrimRight_props[of "l # y" "CHR ''-''"]
  from t ReplaceAllHyphenPairs_set[of "l # v"] y v
  have "set s \<subseteq> set (replaceInvalid 0 i1)" unfolding st by auto
  with replaceInvalid_valid[of 0 i1] have valid: "list_all isValidDBInstanceIdentifierChar s"
    by (auto simp: list_all_iff)
  from t ReplaceAllHyphenPairs_length[of "l # v"] y v
  have "length s \<le> length (replaceInvalid 0 i1)" unfolding st by auto
  with replaceInvalid_length[of 0 i1] len2 have len: "length s \<le> 64" by simp
  from t z have "last s \<noteq> CHR ''-''" unfolding st by simp
  with sz i1(2) valid len show ?thesis by simp
qed

text \<open>
  C6. The pipeline misses two of the constraints it sets out to ensure.
  \<open>strings.ReplaceAll(s, "--", "-")\<close> makes one pass, so three hyphens in a row leave two;
  and the letter that \<open>sanitizeDBInstanceIdentifier\<close> puts in front comes after the
  truncation to 63 characters, so a long identifier that starts with a digit ends with
  64. The first identifier below is also what the engine submits to the create call.
\<close>

theorem newIdentifier_breaks_constraints:
  "newIdentifier ''a---b'' ''reader'' ''123456789'' = Some ''a--b-reader-123456789''
   \<and> map_option length (newIdentifier longClusterID ''reader'' ''123456789'') = Some 64
   \<and> length longClusterID = 71
   \<and> (CreateDBInstanceCall ''a--b-scheduler-123456789'' ''db.r6g.large'', True)
       \<in> set (trace (snd (ExecuteScalingAction hyphenConfig testWorld)))"
  by (intro conjI; code_simp)

end
